theory Spec2Isabelle
  imports Complex_Main "HOL-Library.Multiset"
begin

section \<open>Channel-quality prediction: the windowed scheduling pipeline of main.py\<close>

text \<open>
  The script main.py works on torch and numpy arrays. An array is embedded as a nested
  list, outermost axis first: a matrix of shape (batch, channel) is a list of rows, the
  Series of shape (time-step, sequence, channel) is a list of time-steps, each a list
  with one entry per sequence (the entry is the channel vector, kept polymorphic).
  Indices and lengths that come from the command line are Python integers (\<open>int\<close>).
  Array entries are 32-bit floating-point numbers in the script; they are embedded in a
  linear order (for comparisons) or in the real numbers (for arithmetic), so rounding,
  infinities and NaN are outside the embedding.  Where the script would produce a
  non-finite value (division by zero) the embedding returns \<open>None\<close> for that cell.
  A nested list does not record the lengths of the inner axes of an array whose outer
  axis is empty: such arrays are all embedded as the empty list.
\<close>

subsection \<open>Errors and command-line arguments\<close>

datatype error = IndexError | RuntimeError | TypeError | ValueError | ZeroDivisionError

text \<open>The integer command-line arguments of lines 43-55 that the pipeline reads.\<close>

record args =
  train_split :: int
  sample_rate :: int
  target_rate :: int
  past_window :: int
  future_window :: int
  iterations :: int
  batch_size :: int

subsection \<open>Slicing, concatenation and integer ranges\<close>

text \<open>
  \<^verbatim>\<open>xs[a:b]\<close> along the first axis: a negative bound counts from the end, and both
  bounds are clamped to the length; an empty range gives the empty slice.
\<close>

definition slice_bound :: "nat \<Rightarrow> int \<Rightarrow> nat" where
  "slice_bound n i = (if i < 0 then nat (max (i + int n) 0) else min (nat i) n)"

definition py_slice :: "'a list \<Rightarrow> int \<Rightarrow> int \<Rightarrow> 'a list" where
  "py_slice xs a b =
     (let lo = slice_bound (length xs) a; hi = slice_bound (length xs) b
      in take (hi - lo) (drop lo xs))"

text \<open>\<^verbatim>\<open>xs[:b]\<close>, the slice with no lower bound.\<close>

definition py_prefix :: "'a list \<Rightarrow> int \<Rightarrow> 'a list" where
  "py_prefix xs b = take (slice_bound (length xs) b) xs"

text \<open>
  \<^verbatim>\<open>torch.cat(tensors, dim=1)\<close> on arrays with at least two axes: the list must not be
  empty and all arrays must agree on the length of axis 0, otherwise torch raises a
  RuntimeError; row \<open>i\<close> of the result is the rows \<open>i\<close> of the arrays, appended in
  order.
\<close>

definition torch_cat_dim1 :: "'a list list list \<Rightarrow> error + 'a list list" where
  "torch_cat_dim1 tensors =
     (case tensors of
        [] \<Rightarrow> Inl RuntimeError
      | t # rest \<Rightarrow>
          if list_all (\<lambda>u. length u = length t) rest
          then Inr (map (\<lambda>i. concat (map (\<lambda>u. u ! i) tensors)) [0..<length t])
          else Inl RuntimeError)"

text \<open>
  \<^verbatim>\<open>np.arange(start, stop, step)\<close> on integers: \<open>ceil((stop - start) / step)\<close>
  elements \<open>start + i * step\<close> (none when that number is not positive); a zero step
  raises ZeroDivisionError.
\<close>

definition np_arange :: "int \<Rightarrow> int \<Rightarrow> int \<Rightarrow> error + int list" where
  "np_arange start stop step =
     (if step = 0 then Inl ZeroDivisionError
      else Inr (map (\<lambda>i. start + int i * step) [0..<nat (- ((start - stop) div step))]))"

subsection \<open>Window extraction (lines 80-81 and 142-143)\<close>

definition past_windows :: "'a list list \<Rightarrow> int list \<Rightarrow> int \<Rightarrow> error + 'a list list" where
  "past_windows series indices past_len =
     torch_cat_dim1 (map (\<lambda>index. py_slice series (index - past_len) index) indices)"

definition future_windows :: "'a list list \<Rightarrow> int list \<Rightarrow> int \<Rightarrow> error + 'a list list" where
  "future_windows series indices future_len =
     torch_cat_dim1 (map (\<lambda>index. py_slice series index (index + future_len)) indices)"

subsection \<open>Evaluation pivots (line 141)\<close>

definition pivots :: "args \<Rightarrow> int \<Rightarrow> error + int list" where
  "pivots a datapoints =
     np_arange (past_window a * sample_rate a) datapoints (future_window a * sample_rate a)"

subsection \<open>Availability mask (lines 148-151)\<close>

text \<open>
  \<^verbatim>\<open>np.sort(blacklist)\<close> sorts every row ascending; \<^verbatim>\<open>scores_sorted[:, 8]\<close> reads
  column 8 of every row and raises IndexError when the rows are not longer than 8;
  the comparison broadcasts each row's threshold over the row.
\<close>

definition np_sort :: "'a::linorder list list \<Rightarrow> 'a list list" where
  "np_sort m = map sort m"

definition column :: "'a list list \<Rightarrow> nat \<Rightarrow> error + 'a list" where
  "column m j =
     (if list_all (\<lambda>row. j < length row) m then Inr (map (\<lambda>row. row ! j) m)
      else Inl IndexError)"

definition available_channels :: "'a::linorder list list \<Rightarrow> error + bool list list" where
  "available_channels blacklist =
     (let scores_sorted = np_sort blacklist
      in case column scores_sorted 8 of
           Inl e \<Rightarrow> Inl e
         | Inr thresholds \<Rightarrow>
             Inr (map2 (\<lambda>row threshold. map (\<lambda>score. score < threshold) row)
                    blacklist thresholds))"

text \<open>The number of available channels of one row of a mask.\<close>

definition count_available :: "bool list \<Rightarrow> nat" where
  "count_available row = length (filter (\<lambda>b. b) row)"

text \<open>
  Line 152: the mask goes to the simulator \<^verbatim>\<open>intelligent_tsch\<close> of protocols.py,
  which is not part of the sources and is taken as a parameter.
\<close>

definition interference_values ::
  "('w \<Rightarrow> bool list list \<Rightarrow> 'r) \<Rightarrow> 'w \<Rightarrow> 'a::linorder list list \<Rightarrow> error + 'r" where
  "interference_values intelligent_tsch future_windows_batch blacklist =
     (case available_channels blacklist of
        Inl e \<Rightarrow> Inl e
      | Inr available \<Rightarrow> Inr (intelligent_tsch future_windows_batch available))"

subsection \<open>Training windows (lines 60-61 and 79-81)\<close>

text \<open>
  The training portion is \<^verbatim>\<open>data[:train_samples_cutoff]\<close>.
\<close>

definition train_samples_cutoff :: "args \<Rightarrow> int" where
  "train_samples_cutoff a = train_split a * sample_rate a"

definition training_data :: "args \<Rightarrow> 'a list list \<Rightarrow> 'a list list" where
  "training_data a data = py_prefix data (train_samples_cutoff a)"

text \<open>
  \<^verbatim>\<open>np.random.randint(low, high, size)\<close> draws \<open>size\<close> integers from
  \<open>[low, high)\<close> and raises ValueError when the range is empty.  The draw is not a
  function of the arguments, so it is embedded as the relation between the arguments and
  any list of indices the call can return.
\<close>

definition randint_returns :: "int \<Rightarrow> int \<Rightarrow> int \<Rightarrow> int list \<Rightarrow> bool" where
  "randint_returns low high n indices \<longleftrightarrow>
     low < high \<and> int (length indices) = n \<and> list_all (\<lambda>i. low \<le> i \<and> i < high) indices"

text \<open>
  Line 79.  The upper bound is \<^verbatim>\<open>int(0.80 * datapoints)\<close> minus the future window;
  \<open>datapoints\<close> is a length, so the truncation of the product is the integer
  quotient \<open>4 * datapoints div 5\<close> (the floating-point product rounds to the same
  integer for every length below \<open>2^50\<close>).
\<close>

definition random_indices :: "args \<Rightarrow> int \<Rightarrow> int list \<Rightarrow> bool" where
  "random_indices a datapoints indices \<longleftrightarrow>
     randint_returns (past_window a * sample_rate a)
       ((4 * datapoints) div 5 - future_window a * sample_rate a) (batch_size a) indices"

text \<open>
  Lines 80-81: both windows of one training iteration, cut from the training portion.
\<close>

definition training_windows ::
  "args \<Rightarrow> 'a list list \<Rightarrow> int list \<Rightarrow> error + ('a list list \<times> 'a list list)" where
  "training_windows a data indices =
     (case past_windows (training_data a data) indices (past_window a * sample_rate a) of
        Inl e \<Rightarrow> Inl e
      | Inr pw \<Rightarrow>
          (case future_windows (training_data a data) indices (future_window a * sample_rate a) of
             Inl e \<Rightarrow> Inl e
           | Inr fw \<Rightarrow> Inr (pw, fw)))"

text \<open>
  Lines 141-143: the evaluation grid over the whole data and both windows at every
  pivot; \<open>datapoints\<close> is the length of the first axis of the data.
\<close>

definition evaluation_windows :: "args \<Rightarrow> 'a list list \<Rightarrow> error + ('a list list \<times> 'a list list)" where
  "evaluation_windows a data =
     (case pivots a (int (length data)) of
        Inl e \<Rightarrow> Inl e
      | Inr ps \<Rightarrow>
          (case past_windows data ps (past_window a * sample_rate a) of
             Inl e \<Rightarrow> Inl e
           | Inr pw \<Rightarrow>
               (case future_windows data ps (future_window a * sample_rate a) of
                  Inl e \<Rightarrow> Inl e
                | Inr fw \<Rightarrow> Inr (pw, fw))))"

subsection \<open>Elementwise operations with broadcasting\<close>

text \<open>
  Along one axis torch pairs two operands of equal length position by position,
  repeats an operand of length one, and raises a RuntimeError otherwise.  A binary
  operation on arrays applies this rule axis by axis, outermost first.
\<close>

definition broadcast_zip :: "'a list \<Rightarrow> 'b list \<Rightarrow> error + ('a \<times> 'b) list" where
  "broadcast_zip xs ys =
     (if length xs = length ys then Inr (zip xs ys)
      else if length xs = 1 then Inr (map (\<lambda>y. (hd xs, y)) ys)
      else if length ys = 1 then Inr (map (\<lambda>x. (x, hd ys)) xs)
      else Inl RuntimeError)"

fun collect :: "(error + 'a) list \<Rightarrow> error + 'a list" where
  "collect [] = Inr []"
| "collect (r # rs) =
     (case r of
        Inl e \<Rightarrow> Inl e
      | Inr x \<Rightarrow> (case collect rs of Inl e \<Rightarrow> Inl e | Inr xs \<Rightarrow> Inr (x # xs)))"

definition broadcast_map2 ::
  "('a \<Rightarrow> 'b \<Rightarrow> error + 'c) \<Rightarrow> 'a list \<Rightarrow> 'b list \<Rightarrow> error + 'c list" where
  "broadcast_map2 f xs ys =
     (case broadcast_zip xs ys of
        Inl e \<Rightarrow> Inl e
      | Inr ps \<Rightarrow> collect (map (\<lambda>(x, y). f x y) ps))"

definition torch_mul1 :: "real list \<Rightarrow> real list \<Rightarrow> error + real list" where
  "torch_mul1 = broadcast_map2 (\<lambda>x y. Inr (x * y))"

definition torch_mul2 :: "real list list \<Rightarrow> real list list \<Rightarrow> error + real list list" where
  "torch_mul2 = broadcast_map2 torch_mul1"

definition torch_mul3 ::
  "real list list list \<Rightarrow> real list list list \<Rightarrow> error + real list list list" where
  "torch_mul3 = broadcast_map2 torch_mul2"

text \<open>
  Division of floating-point numbers does not raise: a zero divisor gives an
  infinity or NaN, which the embedding records as \<open>None\<close>.
\<close>

definition float_div :: "real \<Rightarrow> real \<Rightarrow> real option" where
  "float_div x y = (if y = 0 then None else Some (x / y))"

definition torch_div2 ::
  "real list list \<Rightarrow> real list list \<Rightarrow> error + real option list list" where
  "torch_div2 = broadcast_map2 (broadcast_map2 (\<lambda>x y. Inr (float_div x y)))"

text \<open>
  \<^verbatim>\<open>x.unsqueeze(dim=2)\<close> on a matrix: every entry becomes an axis of length one.
\<close>

definition unsqueeze2 :: "'a list list \<Rightarrow> 'a list list list" where
  "unsqueeze2 m = map (map (\<lambda>x. [x])) m"

subsection \<open>The reduction over axis 0 (lines 16-22 and 88-90)\<close>

text \<open>
  \<^verbatim>\<open>torch.sum(t, dim=0)\<close> and \<^verbatim>\<open>torch.max(t, dim=0)\<close> combine the slices of a
  three-axis array along its first axis, entry by entry.  The maximum of an empty axis
  raises an IndexError.  (A nested list cannot record the shape of an array whose first
  axis is empty; its sum is embedded as the empty matrix.)
\<close>

definition torch_sum_dim0 :: "real list list list \<Rightarrow> real list list" where
  "torch_sum_dim0 t =
     (case t of [] \<Rightarrow> [] | m # ms \<Rightarrow> foldl (map2 (map2 (+))) m ms)"

definition torch_max_dim0 :: "real list list list \<Rightarrow> error + real list list" where
  "torch_max_dim0 t =
     (case t of [] \<Rightarrow> Inl IndexError | m # ms \<Rightarrow> Inr (foldl (map2 (map2 max)) m ms))"

text \<open>
  The function \<^verbatim>\<open>reduce\<close>.  Its method is a string: \<^verbatim>\<open>'mean'\<close> selects the
  quotient of the two sums, every other string the maximum.  The matrix defaults to
  \<^verbatim>\<open>None\<close>, on which \<^verbatim>\<open>torch.sum\<close> raises a TypeError.  The cells of the result
  are options because of the division.
\<close>

definition reduce ::
  "real list list list \<Rightarrow> string \<Rightarrow> real list list list option
     \<Rightarrow> error + real option list list" where
  "reduce values method matrix =
     (if method = ''mean'' then
        (case matrix of
           None \<Rightarrow> Inl TypeError
         | Some weights \<Rightarrow>
             (let channels_sums = torch_sum_dim0 values;
                  channels_weights = torch_sum_dim0 weights
              in torch_div2 channels_sums channels_weights))
      else
        (case torch_max_dim0 values of
           Inl e \<Rightarrow> Inl e
         | Inr maxima \<Rightarrow> Inr (map (map Some) maxima)))"

text \<open>
  Lines 89-90.  The error values of shape (axis 0, batch) and the channel-attribution
  matrix of shape (axis 0, batch, channel) come from \<^verbatim>\<open>error_props\<close> and
  \<^verbatim>\<open>tsch\<close>, which are not part of the sources; they are parameters here.
\<close>

definition error_props_per_channel ::
  "real list list \<Rightarrow> real list list list \<Rightarrow> error + real list list list" where
  "error_props_per_channel error_prop_values channels_matrix =
     torch_mul3 (unsqueeze2 error_prop_values) channels_matrix"

definition errors_reduced ::
  "real list list \<Rightarrow> real list list list \<Rightarrow> string \<Rightarrow> error + real option list list" where
  "errors_reduced error_prop_values channels_matrix reducing_method =
     (case error_props_per_channel error_prop_values channels_matrix of
        Inl e \<Rightarrow> Inl e
      | Inr per_channel \<Rightarrow> reduce per_channel reducing_method (Some channels_matrix))"

text \<open>
  Shapes of nested lists, used to state that two arrays have equal shape.
\<close>

definition shape2 :: "nat \<Rightarrow> nat \<Rightarrow> 'a list list \<Rightarrow> bool" where
  "shape2 n m x \<longleftrightarrow> length x = n \<and> list_all (\<lambda>row. length row = m) x"

definition shape3 :: "nat \<Rightarrow> nat \<Rightarrow> nat \<Rightarrow> 'a list list list \<Rightarrow> bool" where
  "shape3 n m k x \<longleftrightarrow> length x = n \<and> list_all (shape2 m k) x"

subsection \<open>The training loss (lines 65, 68 and 92-97)\<close>

definition torch_ones_like :: "real list list \<Rightarrow> real list list" where
  "torch_ones_like m = map (map (\<lambda>_. 1)) m"

definition torch_zeros_like :: "real list list \<Rightarrow> real list list" where
  "torch_zeros_like m = map (map (\<lambda>_. 0)) m"

text \<open>
  \<^verbatim>\<open>torch.mean\<close> divides the sum of all entries by their number; on an array with
  no entry the result is NaN, embedded as \<open>None\<close>.
\<close>

definition mean_of_cells :: "real list \<Rightarrow> real option" where
  "mean_of_cells cells =
     (if cells = [] then None else Some (sum_list cells / real (length cells)))"

definition torch_mean :: "real list list \<Rightarrow> real option" where
  "torch_mean m = mean_of_cells (concat m)"

text \<open>
  \<^verbatim>\<open>nn.BCELoss()\<close> of the torch library, with its default mean reduction: the
  logarithms are clamped from below at \<open>-100\<close>, a target whose size differs from the
  input's raises a ValueError, and an input entry outside \<open>[0, 1]\<close> raises a
  RuntimeError.
\<close>

definition clamp_log :: "real \<Rightarrow> real" where
  "clamp_log v = (if v \<le> 0 then - 100 else max (ln v) (- 100))"

definition bce_term :: "real \<Rightarrow> real \<Rightarrow> real" where
  "bce_term x y = - (y * clamp_log x + (1 - y) * clamp_log (1 - x))"

definition bce_loss :: "real list list \<Rightarrow> real list list \<Rightarrow> error + real option" where
  "bce_loss input target =
     (if map length input \<noteq> map length target then Inl ValueError
      else if \<not> list_all (list_all (\<lambda>x. 0 \<le> x \<and> x \<le> 1)) input then Inl RuntimeError
      else Inr (torch_mean (map2 (map2 bce_term) input target)))"

text \<open>
  Line 68: the penalty weight of each model variant, in the order of the dictionary
  (the networks themselves belong to model.py and are left out).
\<close>

definition models :: "(string \<times> real) list" where
  "models = [(''mean'', 5 / 100), (''max'', 55 / 100)]"

definition penalty_weight :: "string \<Rightarrow> real option" where
  "penalty_weight reducing_method = map_of models reducing_method"

text \<open>
  Lines 92-97.  The reduced errors and the blacklist scores are matrices of shape
  (batch, channel).
\<close>

definition loss_func :: "real list list \<Rightarrow> real list list \<Rightarrow> real \<Rightarrow> error + real option" where
  "loss_func reduced blacklist weight =
     (let whitelist = map2 (map2 (-)) (torch_ones_like blacklist) blacklist
      in case torch_mul2 reduced whitelist of
           Inl e \<Rightarrow> Inl e
         | Inr outputs \<Rightarrow>
             (let desired_outputs = torch_zeros_like outputs
              in case bce_loss outputs desired_outputs of
                   Inl e \<Rightarrow> Inl e
                 | Inr cross_entropy_loss \<Rightarrow>
                     (let blacklisting_penalty = torch_mean blacklist
                      in Inr (case (cross_entropy_loss, blacklisting_penalty) of
                                (Some ce, Some penalty) \<Rightarrow> Some (ce + penalty * weight)
                              | _ \<Rightarrow> None))))"

text \<open>
  The objective in the words of the specification (section 4.5): the predicted failure
  is the reduced error times the complement of the score, the reliability loss is the
  binary cross-entropy of the predicted failure against an all-zero target, the
  exclusion penalty is the mean score, and the total loss is their weighted sum.  These
  four definitions are what \<open>loss_func\<close> is compared with.
\<close>

definition predicted_failure :: "real list list \<Rightarrow> real list list \<Rightarrow> real list list" where
  "predicted_failure reduced_error score = map2 (map2 (\<lambda>e s. e * (1 - s))) reduced_error score"

definition reliability_loss :: "real list list \<Rightarrow> real" where
  "reliability_loss failure =
     sum_list (map (\<lambda>p. - clamp_log (1 - p)) (concat failure)) / real (length (concat failure))"

definition exclusion_penalty :: "real list list \<Rightarrow> real" where
  "exclusion_penalty score = sum_list (concat score) / real (length (concat score))"

definition total_loss :: "real list list \<Rightarrow> real list list \<Rightarrow> real \<Rightarrow> real" where
  "total_loss reduced_error score weight =
     reliability_loss (predicted_failure reduced_error score) + weight * exclusion_penalty score"

subsection \<open>The stitched reception series (lines 126-128 and 154)\<close>

text \<open>
  \<^verbatim>\<open>x.permute(1, 0)\<close> transposes a matrix and \<^verbatim>\<open>.view(-1, 1)\<close> lays its entries
  out, row by row, as one column.  (Whether torch accepts the view depends on the memory
  layout of the simulator's output, which is outside the embedding.)
\<close>

definition permute10 :: "'a list list \<Rightarrow> 'a list list" where
  "permute10 m =
     (case m of [] \<Rightarrow> [] | row # _ \<Rightarrow> map (\<lambda>j. map (\<lambda>r. r ! j) m) [0..<length row])"

definition view_column :: "'a list list \<Rightarrow> 'a list list" where
  "view_column m = map (\<lambda>x. [x]) (concat m)"

text \<open>
  \<^verbatim>\<open>torch.cat((x, y), dim=0)\<close> on matrices: the rows of \<open>x\<close>, then the rows of
  \<open>y\<close>; all rows must have one length, otherwise torch raises a RuntimeError.  (The
  width of a matrix with no rows is not recorded by a nested list.)
\<close>

definition torch_cat_dim0 :: "'a list list \<Rightarrow> 'a list list \<Rightarrow> error + 'a list list" where
  "torch_cat_dim0 x y =
     (case x @ y of
        [] \<Rightarrow> Inr []
      | row # rest \<Rightarrow>
          if list_all (\<lambda>r. length r = length row) rest then Inr (x @ y)
          else Inl RuntimeError)"

text \<open>
  \<^verbatim>\<open>PacketReceptionProb\<close> belongs to simulation.py, which is not part of the sources.
  It is taken as a parameter: a function \<open>prob\<close> from a bit-error probability to a
  reception probability, applied to every entry.
\<close>

definition reception_props :: "(real \<Rightarrow> real) \<Rightarrow> real list list \<Rightarrow> real list list" where
  "reception_props prob errors = map (map prob) errors"

text \<open>
  Line 128, with the baseline bit-error probabilities \<open>tsch_errors\<close> (a column of
  shape (time-step, 1), computed by modules outside the sources) as a parameter.
\<close>

definition tsch_receptions :: "(real \<Rightarrow> real) \<Rightarrow> real list list \<Rightarrow> real list list" where
  "tsch_receptions prob tsch_errors = reception_props prob tsch_errors"

text \<open>
  Line 154, with the bit-error probabilities of the masked simulation
  \<open>error_props_values\<close> (shape (future window, batch)) as a parameter.
\<close>

definition reception_props_values ::
  "(real \<Rightarrow> real) \<Rightarrow> args \<Rightarrow> real list list \<Rightarrow> real list list \<Rightarrow> error + real list list" where
  "reception_props_values prob a tsch_errors error_props_values =
     (case torch_cat_dim0 (py_prefix tsch_errors (past_window a * sample_rate a))
             (view_column (permute10 error_props_values)) of
        Inl e \<Rightarrow> Inl e
      | Inr stitched \<Rightarrow> Inr (reception_props prob stitched))"

subsection \<open>Normalization statistics through training and evaluation (lines 63, 76-101, 144-147)\<close>

text \<open>
  \<^verbatim>\<open>torch.std\<close> is the unbiased standard deviation of all entries; with fewer than
  two entries it is NaN, embedded as \<open>None\<close>.
\<close>

definition std_of_cells :: "real list \<Rightarrow> real option" where
  "std_of_cells cells =
     (if length cells \<le> 1 then None
      else (let mean = sum_list cells / real (length cells)
            in Some (sqrt (sum_list (map (\<lambda>x. (x - mean)\<^sup>2) cells)
                           / real (length cells - 1)))))"

text \<open>
  The variables that training and evaluation share: the two statistics of line 63 and
  the parameters of the network being trained (of an abstract type).
\<close>

record 'net trainer =
  data_mean :: "real option"
  data_std :: "real option"
  network :: 'net

definition initial_trainer :: "args \<Rightarrow> real list list list \<Rightarrow> 'net \<Rightarrow> 'net trainer" where
  "initial_trainer a data net =
     (let cells = concat (concat (training_data a data))
      in \<lparr>data_mean = mean_of_cells cells, data_std = std_of_cells cells, network = net\<rparr>)"

text \<open>
  Lines 84 and 145: \<^verbatim>\<open>(x - data_mean) / data_std\<close> on every entry.  A NaN statistic
  or a zero deviation gives a non-finite entry, \<open>None\<close>.
\<close>

definition normalize_cell :: "real option \<Rightarrow> real option \<Rightarrow> real \<Rightarrow> real option" where
  "normalize_cell mean std x =
     (case (mean, std) of (Some m, Some s) \<Rightarrow> float_div (x - m) s | _ \<Rightarrow> None)"

definition past_windows_normalized ::
  "'net trainer \<Rightarrow> real list list list \<Rightarrow> real option list list list" where
  "past_windows_normalized s past_windows_downsampled =
     map (map (map (normalize_cell (data_mean s) (data_std s)))) past_windows_downsampled"

text \<open>
  One training iteration (lines 77-101).  The resampling \<^verbatim>\<open>func.interpolate\<close> is a
  library function and a parameter here.  The parameter \<open>optimize\<close> stands for lines
  85-101: the forward pass, the simulator, the loss and the optimizer step, which involve
  the modules outside the sources; it returns the updated network parameters.  An error
  raised while extracting the windows aborts the run.
\<close>

definition train_iteration ::
  "(real list list list \<Rightarrow> real list list list) \<Rightarrow>
   ('net \<Rightarrow> real option list list list \<Rightarrow> real list list list \<Rightarrow> 'net) \<Rightarrow>
   args \<Rightarrow> real list list list \<Rightarrow> 'net trainer \<Rightarrow> int list \<Rightarrow> error + 'net trainer" where
  "train_iteration interpolate optimize a data s indices =
     (case training_windows a data indices of
        Inl e \<Rightarrow> Inl e
      | Inr (pw, fw) \<Rightarrow>
          Inr (s\<lparr>network :=
                   optimize (network s) (past_windows_normalized s (interpolate pw)) fw\<rparr>))"

text \<open>
  The loop of line 76, over the index draws of the successive iterations.
\<close>

fun train ::
  "(real list list list \<Rightarrow> real list list list) \<Rightarrow>
   ('net \<Rightarrow> real option list list list \<Rightarrow> real list list list \<Rightarrow> 'net) \<Rightarrow>
   args \<Rightarrow> real list list list \<Rightarrow> 'net trainer \<Rightarrow> int list list \<Rightarrow> error + 'net trainer" where
  "train interpolate optimize a data s [] = Inr s"
| "train interpolate optimize a data s (indices # draws) =
     (case train_iteration interpolate optimize a data s indices of
        Inl e \<Rightarrow> Inl e
      | Inr s' \<Rightarrow> train interpolate optimize a data s' draws)"

text \<open>
  Lines 141-145: the normalized past windows that the evaluation feeds to the network.
\<close>

definition evaluation_input ::
  "(real list list list \<Rightarrow> real list list list) \<Rightarrow> args \<Rightarrow> real list list list \<Rightarrow>
   'net trainer \<Rightarrow> error + real option list list list" where
  "evaluation_input interpolate a data s =
     (case evaluation_windows a data of
        Inl e \<Rightarrow> Inl e
      | Inr (pw, fw) \<Rightarrow> Inr (past_windows_normalized s (interpolate pw)))"

section \<open>Properties\<close>

subsection \<open>The availability mask\<close>


lemma length_filter_sort: "length (filter P (sort xs)) = length (filter P xs)"
proof -
  have "mset (filter P (sort xs)) = mset (filter P xs)"
    by (simp only: mset_filter mset_sort)
  then show ?thesis by (metis size_mset)
qed

lemma sorted_below_nth:
  assumes "sorted ys" and "k < length ys"
  shows "length (filter (\<lambda>s. s < ys ! k) ys) \<le> k"
proof -
  have "{i. i < length ys \<and> ys ! i < ys ! k} \<subseteq> {..<k}"
  proof
    fix i assume "i \<in> {i. i < length ys \<and> ys ! i < ys ! k}"
    then have i: "i < length ys" "ys ! i < ys ! k" by auto
    have "i < k"
    proof (rule ccontr)
      assume "\<not> i < k"
      then have "ys ! k \<le> ys ! i" using assms(1) i(1) by (simp add: sorted_nth_mono)
      with i(2) show False by simp
    qed
    then show "i \<in> {..<k}" by simp
  qed
  then have "card {i. i < length ys \<and> ys ! i < ys ! k} \<le> card {..<k}"
    by (intro card_mono) auto
  then show ?thesis by (simp add: length_filter_conv_card)
qed

lemma sorted_above_nth:
  assumes "sorted ys" and "k < length ys"
  shows "length (filter (\<lambda>s. ys ! k < s) ys) \<le> length ys - Suc k"
proof -
  have "{i. i < length ys \<and> ys ! k < ys ! i} \<subseteq> {Suc k..<length ys}"
  proof
    fix i assume "i \<in> {i. i < length ys \<and> ys ! k < ys ! i}"
    then have i: "i < length ys" "ys ! k < ys ! i" by auto
    have "k < i"
    proof (rule ccontr)
      assume "\<not> k < i"
      then have "ys ! i \<le> ys ! k" using assms by (simp add: sorted_nth_mono)
      with i(2) show False by simp
    qed
    with i(1) show "i \<in> {Suc k..<length ys}" by simp
  qed
  then have "card {i. i < length ys \<and> ys ! k < ys ! i} \<le> card {Suc k..<length ys}"
    by (intro card_mono) auto
  then show ?thesis by (simp add: length_filter_conv_card)
qed

lemma length_three_way:
  fixes t :: "'a::linorder"
  shows "length xs = length (filter (\<lambda>s. s < t) xs) + count_list xs t
           + length (filter (\<lambda>s. t < s) xs)"
proof (induction xs)
  case Nil
  show ?case by simp
next
  case (Cons x xs)
  consider "x < t" | "x = t" | "t < x" by (rule linorder_cases)
  then show ?case
  proof cases
    case 1
    then have "\<not> t < x" "x \<noteq> t" by auto
    with 1 Cons show ?thesis by simp
  next
    case 2
    with Cons show ?thesis by simp
  next
    case 3
    then have "\<not> x < t" "x \<noteq> t" by auto
    with 3 Cons show ?thesis by simp
  qed
qed

lemma row_below_threshold_le:
  assumes "k < length row"
  shows "length (filter (\<lambda>s. s < sort row ! k) row) \<le> k"
proof -
  have "length (filter (\<lambda>s. s < sort row ! k) (sort row)) \<le> k"
    using assms by (intro sorted_below_nth) simp_all
  then show ?thesis by (simp only: length_filter_sort)
qed

lemma row_above_threshold_le:
  assumes "k < length row"
  shows "length (filter (\<lambda>s. sort row ! k < s) row) \<le> length row - Suc k"
proof -
  have "length (filter (\<lambda>s. sort row ! k < s) (sort row)) \<le> length (sort row) - Suc k"
    using assms by (intro sorted_above_nth) simp_all
  then show ?thesis by (simp only: length_filter_sort length_sort)
qed

lemma row_below_threshold_eq:
  assumes "k < length row" and "count_list row (sort row ! k) = 1"
  shows "length (filter (\<lambda>s. s < sort row ! k) row) = k"
proof -
  let ?t = "sort row ! k"
  have "length row = length (filter (\<lambda>s. s < ?t) row) + count_list row ?t
           + length (filter (\<lambda>s. ?t < s) row)"
    by (rule length_three_way)
  with assms(2) row_above_threshold_le [OF assms(1)] row_below_threshold_le [OF assms(1)] assms(1)
  show ?thesis by linarith
qed

text \<open>
  A row has as many scores below its threshold as the threshold's position exactly when
  the sorted row increases strictly at that position.
\<close>

lemma sorted_below_nth_ge:
  assumes "sorted ys" and "Suc j < length ys" and "ys ! j < ys ! Suc j"
  shows "Suc j \<le> length (filter (\<lambda>s. s < ys ! Suc j) ys)"
proof -
  have "{..<Suc j} \<subseteq> {i. i < length ys \<and> ys ! i < ys ! Suc j}"
  proof
    fix i assume "i \<in> {..<Suc j}"
    then have i: "i \<le> j" by simp
    then have "ys ! i \<le> ys ! j" using assms(1,2) by (simp add: sorted_nth_mono)
    with assms(3) have "ys ! i < ys ! Suc j" by simp
    with i assms(2) show "i \<in> {i. i < length ys \<and> ys ! i < ys ! Suc j}" by simp
  qed
  then have "card {..<Suc j} \<le> card {i. i < length ys \<and> ys ! i < ys ! Suc j}"
    by (intro card_mono) auto
  then show ?thesis by (simp add: length_filter_conv_card)
qed

lemma row_below_threshold_iff:
  assumes "Suc j < length row"
  shows "length (filter (\<lambda>s. s < sort row ! Suc j) row) = Suc j
           \<longleftrightarrow> sort row ! j < sort row ! Suc j"
proof
  assume eq: "length (filter (\<lambda>s. s < sort row ! Suc j) row) = Suc j"
  show "sort row ! j < sort row ! Suc j"
  proof (rule ccontr)
    assume "\<not> sort row ! j < sort row ! Suc j"
    moreover have "sort row ! j \<le> sort row ! Suc j"
      using assms by (simp add: sorted_nth_mono)
    ultimately have same: "sort row ! Suc j = sort row ! j" by simp
    have "j < length row" using assms by simp
    from row_below_threshold_le [OF this] same eq show False by simp
  qed
next
  assume lt: "sort row ! j < sort row ! Suc j"
  have "Suc j \<le> length (filter (\<lambda>s. s < sort row ! Suc j) (sort row))"
    using assms lt by (intro sorted_below_nth_ge) simp_all
  then have "Suc j \<le> length (filter (\<lambda>s. s < sort row ! Suc j) row)"
    by (simp only: length_filter_sort)
  with row_below_threshold_le [OF assms] show
    "length (filter (\<lambda>s. s < sort row ! Suc j) row) = Suc j" by simp
qed

lemma count_available_map: "count_available (map P row) = length (filter P row)"
  by (induction row) (simp_all add: count_available_def)

lemma available_channels_rows:
  assumes "list_all (\<lambda>row. 8 < length row) blacklist"
  shows "available_channels blacklist =
           Inr (map (\<lambda>row. map (\<lambda>score. score < sort row ! 8) row) blacklist)"
proof -
  have c: "column (np_sort blacklist) 8 = Inr (map (\<lambda>row. sort row ! 8) blacklist)"
    using assms by (simp add: column_def np_sort_def list_all_iff comp_def)
  have z: "map2 f xs (map g xs) = map (\<lambda>x. f x (g x)) xs" for f :: "'b \<Rightarrow> 'c \<Rightarrow> 'd" and g xs
    by (induction xs) simp_all
  show ?thesis
    by (simp add: available_channels_def c z)
qed

lemma available_channels_short:
  assumes "\<not> list_all (\<lambda>row. 8 < length row) blacklist"
  shows "available_channels blacklist = Inl IndexError"
  using assms by (simp add: available_channels_def column_def np_sort_def list_all_iff)

text \<open>
  Claim C1.  For a score matrix whose rows have 16 channels, the mask is computed (no
  error), has the shape of the score matrix, and every row has at most \<open>16 - 8 = 8\<close>
  available channels; a row has exactly 8 when no other score of the row ties with its
  threshold, that is, when the threshold value (the score at position 8 of the sorted
  row) occurs once in the row.
\<close>

theorem available_channels_count:
  assumes "list_all (\<lambda>row. length row = 16) blacklist"
  shows "\<exists>mask. available_channels blacklist = Inr mask \<and> length mask = length blacklist \<and>
           (\<forall>i<length blacklist.
              length (mask ! i) = 16 \<and>
              count_available (mask ! i) \<le> 16 - 8 \<and>
              (count_list (blacklist ! i) (sort (blacklist ! i) ! 8) = 1 \<longrightarrow>
                 count_available (mask ! i) = 16 - 8))"
proof -
  have len: "list_all (\<lambda>row. 8 < length row) blacklist"
    using assms by (simp add: list_all_iff)
  let ?mask = "map (\<lambda>row. map (\<lambda>score. score < sort row ! 8) row) blacklist"
  have "available_channels blacklist = Inr ?mask"
    by (rule available_channels_rows [OF len])
  moreover have "length ?mask = length blacklist" by simp
  moreover have "\<forall>i<length blacklist.
              length (?mask ! i) = 16 \<and> count_available (?mask ! i) \<le> 16 - 8 \<and>
              (count_list (blacklist ! i) (sort (blacklist ! i) ! 8) = 1 \<longrightarrow>
                 count_available (?mask ! i) = 16 - 8)"
  proof (intro allI impI)
    fix i assume i: "i < length blacklist"
    then have l16: "length (blacklist ! i) = 16"
      using assms by (simp add: list_all_length)
    then have k: "8 < length (blacklist ! i)" by simp
    show "length (?mask ! i) = 16 \<and> count_available (?mask ! i) \<le> 16 - 8 \<and>
              (count_list (blacklist ! i) (sort (blacklist ! i) ! 8) = 1 \<longrightarrow>
                 count_available (?mask ! i) = 16 - 8)"
      using i l16 row_below_threshold_le [OF k] row_below_threshold_eq [OF k]
      by (simp add: count_available_map)
  qed
  ultimately show ?thesis by blast
qed

theorem available_channels_count_witness:
  "list_all (\<lambda>row. length row = 16)
     [[1/10, 9/10, 3/10, 8/10, 2/10, 7/10, 4/10, 6/10, 5/10, 11/20, 3/20, 19/20, 7/20,
       17/20, 1/4, 3/4 :: real]] \<and>
   (\<exists>mask. available_channels
      [[1/10, 9/10, 3/10, 8/10, 2/10, 7/10, 4/10, 6/10, 5/10, 11/20, 3/20, 19/20, 7/20,
        17/20, 1/4, 3/4 :: real]] = Inr mask \<and> count_available (mask ! 0) = 8)"
proof -
  let ?B = "[[1/10, 9/10, 3/10, 8/10, 2/10, 7/10, 4/10, 6/10, 5/10, 11/20, 3/20, 19/20, 7/20,
       17/20, 1/4, 3/4 :: real]]"
  have h: "list_all (\<lambda>row. length row = 16) ?B" by simp
  have c: "count_list (?B ! 0) (sort (?B ! 0) ! 8) = 1" by simp
  from available_channels_count [OF h] obtain mask where
    m: "available_channels ?B = Inr mask" and
    a: "\<forall>i<length ?B. length (mask ! i) = 16 \<and> count_available (mask ! i) \<le> 16 - 8 \<and>
              (count_list (?B ! i) (sort (?B ! i) ! 8) = 1 \<longrightarrow>
                 count_available (mask ! i) = 16 - 8)"
    by blast
  from a have "count_list (?B ! 0) (sort (?B ! 0) ! 8) = 1 \<longrightarrow> count_available (mask ! 0) = 16 - 8"
    by simp
  with c have "count_available (mask ! 0) = 8" by simp
  with m h show ?thesis by blast
qed

lemma sort_replicate: "sort (replicate n (c::'a::linorder)) = replicate n c"
  by (simp add: sorted_sort_id sorted_replicate)

text \<open>
  Claim C10.  A row in which all 16 scores are equal (to any value \<open>c\<close>) gets a mask
  with no available channel, and that mask is what the evaluation hands to the
  simulator \<^verbatim>\<open>intelligent_tsch\<close>.
\<close>

theorem fully_blacklisted_row:
  "available_channels [replicate 16 c] = Inr [replicate 16 False] \<and>
   count_available (replicate 16 False) = 0 \<and>
   interference_values intelligent_tsch fw [replicate 16 c]
     = Inr (intelligent_tsch fw [replicate 16 False])"
proof -
  have r: "available_channels [replicate 16 c] = Inr [replicate 16 False]"
    by (simp add: available_channels_rows sort_replicate map_replicate_const)
  have "count_available (replicate 16 False) = 0"
    by (simp add: count_available_def)
  with r show ?thesis by (simp add: interference_values_def)
qed

subsection \<open>Window extraction\<close>

lemma take_drop_nth:
  assumes "k + n \<le> length xs"
  shows "take n (drop k xs) = map (\<lambda>t. xs ! (k + t)) [0..<n]"
  using assms by (intro nth_equalityI) simp_all

lemma py_slice_range:
  assumes "0 \<le> a" and "a \<le> b" and "b \<le> int (length xs)"
  shows "py_slice xs a b = map (\<lambda>t. xs ! (nat a + t)) [0..<nat (b - a)]"
proof -
  have lo: "slice_bound (length xs) a = nat a" using assms by (simp add: slice_bound_def)
  have hi: "slice_bound (length xs) b = nat b" using assms by (simp add: slice_bound_def)
  have d: "nat b - nat a = nat (b - a)" using assms by linarith
  have "nat a + nat (b - a) \<le> length xs" using assms by linarith
  then show ?thesis
    by (simp add: py_slice_def lo hi d take_drop_nth)
qed

lemma length_py_slice:
  "length (py_slice xs a b) = slice_bound (length xs) b - slice_bound (length xs) a"
proof -
  have "slice_bound (length xs) b \<le> length xs" by (auto simp: slice_bound_def)
  then show ?thesis by (simp add: py_slice_def Let_def)
qed

lemma torch_cat_dim1_same_length:
  assumes "tensors \<noteq> []" and "list_all (\<lambda>u. length u = n) tensors"
  shows "torch_cat_dim1 tensors = Inr (map (\<lambda>i. concat (map (\<lambda>u. u ! i) tensors)) [0..<n])"
proof (cases tensors)
  case Nil
  with assms(1) show ?thesis by simp
next
  case (Cons t rest)
  with assms(2) have "length t = n" "list_all (\<lambda>u. length u = length t) rest"
    by (simp_all add: list_all_iff)
  with Cons show ?thesis by (simp add: torch_cat_dim1_def)
qed

lemma torch_cat_dim1_mismatch:
  assumes "u \<in> set tensors" and "v \<in> set tensors" and "length u \<noteq> length v"
  shows "torch_cat_dim1 tensors = Inl RuntimeError"
proof (cases tensors)
  case Nil
  then show ?thesis by (simp add: torch_cat_dim1_def)
next
  case (Cons t rest)
  have "\<not> list_all (\<lambda>w. length w = length t) rest"
  proof
    assume "list_all (\<lambda>w. length w = length t) rest"
    then have "\<forall>w\<in>set tensors. length w = length t"
      using Cons by (simp add: list_all_iff)
    with assms show False by auto
  qed
  with Cons show ?thesis by (simp add: torch_cat_dim1_def)
qed

lemma past_windows_rows:
  assumes "indices \<noteq> []" and "0 \<le> past_len"
    and "list_all (\<lambda>pivot. past_len \<le> pivot \<and> pivot \<le> int (length series)) indices"
  shows "past_windows series indices past_len =
           Inr (map (\<lambda>t. concat (map (\<lambda>pivot. series ! (nat (pivot - past_len) + t)) indices))
                  [0..<nat past_len])"
proof -
  have past: "py_slice series (p - past_len) p
                = map (\<lambda>t. series ! (nat (p - past_len) + t)) [0..<nat past_len]"
    if "p \<in> set indices" for p
  proof -
    from assms(3) that have "past_len \<le> p" "p \<le> int (length series)"
      by (simp_all add: list_all_iff)
    with assms(2) show ?thesis
      using py_slice_range [of "p - past_len" p series] by simp
  qed
  let ?ps = "map (\<lambda>index. py_slice series (index - past_len) index) indices"
  have "list_all (\<lambda>u. length u = nat past_len) ?ps"
    by (simp add: list_all_iff past)
  with assms(1) have "torch_cat_dim1 ?ps
      = Inr (map (\<lambda>i. concat (map (\<lambda>u. u ! i) ?ps)) [0..<nat past_len])"
    by (intro torch_cat_dim1_same_length) simp_all
  also have "map (\<lambda>i. concat (map (\<lambda>u. u ! i) ?ps)) [0..<nat past_len]
          = map (\<lambda>t. concat (map (\<lambda>pivot. series ! (nat (pivot - past_len) + t)) indices))
                  [0..<nat past_len]"
    by (rule map_cong [OF refl]) (simp add: comp_def past cong: map_cong)
  finally show ?thesis by (simp add: past_windows_def)
qed

lemma future_windows_rows:
  assumes "indices \<noteq> []" and "0 \<le> future_len"
    and "list_all (\<lambda>pivot. 0 \<le> pivot \<and> pivot \<le> int (length series) - future_len) indices"
  shows "future_windows series indices future_len =
           Inr (map (\<lambda>t. concat (map (\<lambda>pivot. series ! (nat pivot + t)) indices))
                  [0..<nat future_len])"
proof -
  have future: "py_slice series p (p + future_len)
                = map (\<lambda>t. series ! (nat p + t)) [0..<nat future_len]"
    if "p \<in> set indices" for p
  proof -
    from assms(3) that have "0 \<le> p" "p \<le> int (length series) - future_len"
      by (simp_all add: list_all_iff)
    with assms(2) show ?thesis
      using py_slice_range [of p "p + future_len" series] by simp
  qed
  let ?fs = "map (\<lambda>index. py_slice series index (index + future_len)) indices"
  have "list_all (\<lambda>u. length u = nat future_len) ?fs"
    by (simp add: list_all_iff future)
  with assms(1) have "torch_cat_dim1 ?fs
      = Inr (map (\<lambda>i. concat (map (\<lambda>u. u ! i) ?fs)) [0..<nat future_len])"
    by (intro torch_cat_dim1_same_length) simp_all
  also have "map (\<lambda>i. concat (map (\<lambda>u. u ! i) ?fs)) [0..<nat future_len]
          = map (\<lambda>t. concat (map (\<lambda>pivot. series ! (nat pivot + t)) indices))
                  [0..<nat future_len]"
    by (rule map_cong [OF refl]) (simp add: comp_def future cong: map_cong)
  finally show ?thesis by (simp add: future_windows_def)
qed

text \<open>
  Claim C4.  For a non-empty list of pivots that all satisfy the boundary invariant
  \<open>past_len \<le> pivot \<le> length series - future_len\<close>, both extractions succeed; the
  past batch has \<open>past_len\<close> rows and its row \<open>t\<close> is the concatenation, in pivot
  order, of the series' time-steps \<open>pivot - past_len + t\<close>; the future batch has
  \<open>future_len\<close> rows and its row \<open>t\<close> concatenates the time-steps \<open>pivot + t\<close>.
  So the windows are \<open>series[pivot - past_len : pivot]\<close> and
  \<open>series[pivot : pivot + future_len]\<close>, with no off-by-one.
\<close>

theorem window_extraction:
  assumes "indices \<noteq> []" and "0 \<le> past_len" and "0 \<le> future_len"
    and "list_all (\<lambda>pivot. past_len \<le> pivot \<and> pivot \<le> int (length series) - future_len) indices"
  shows "past_windows series indices past_len =
           Inr (map (\<lambda>t. concat (map (\<lambda>pivot. series ! (nat (pivot - past_len) + t)) indices))
                  [0..<nat past_len]) \<and>
         future_windows series indices future_len =
           Inr (map (\<lambda>t. concat (map (\<lambda>pivot. series ! (nat pivot + t)) indices))
                  [0..<nat future_len])"
proof (intro conjI)
  have "list_all (\<lambda>pivot. past_len \<le> pivot \<and> pivot \<le> int (length series)) indices"
    using assms(3,4) by (auto simp: list_all_iff)
  with assms(1,2) show "past_windows series indices past_len =
           Inr (map (\<lambda>t. concat (map (\<lambda>pivot. series ! (nat (pivot - past_len) + t)) indices))
                  [0..<nat past_len])"
    by (rule past_windows_rows)
  have "list_all (\<lambda>pivot. 0 \<le> pivot \<and> pivot \<le> int (length series) - future_len) indices"
    using assms(2,4) by (auto simp: list_all_iff)
  with assms(1,3) show "future_windows series indices future_len =
           Inr (map (\<lambda>t. concat (map (\<lambda>pivot. series ! (nat pivot + t)) indices))
                  [0..<nat future_len])"
    by (rule future_windows_rows)
qed

theorem window_extraction_witness:
  "[500, 100] \<noteq> ([] :: int list) \<and> (0::int) \<le> 50 \<and>
   list_all (\<lambda>pivot. 50 \<le> pivot \<and> pivot \<le> int (length (map (\<lambda>i. [int i]) [0..<1000])) - 50)
     [500, 100] \<and>
   past_windows (map (\<lambda>i. [int i]) [0..<1000]) [500, 100] 50
     = Inr (map (\<lambda>t. [450 + int t, 50 + int t]) [0..<50]) \<and>
   future_windows (map (\<lambda>i. [int i]) [0..<1000]) [500, 100] 50
     = Inr (map (\<lambda>t. [500 + int t, 100 + int t]) [0..<50])"
proof -
  let ?series = "map (\<lambda>i. [int i]) [0..<1000]"
  have h1: "[500, 100] \<noteq> ([] :: int list)" by simp
  have h2: "(0::int) \<le> 50" by simp
  have h3: "list_all (\<lambda>pivot. 50 \<le> pivot \<and> pivot \<le> int (length ?series) - 50) [500, 100]"
    by simp
  note w = window_extraction [OF h1 h2 h2 h3]
  have a: "map (\<lambda>t. concat (map (\<lambda>pivot. ?series ! (nat (pivot - 50) + t)) [500, 100])) [0..<nat 50]
         = map (\<lambda>t. [450 + int t, 50 + int t]) [0..<50]"
    by (rule map_cong) simp_all
  have b: "map (\<lambda>t. concat (map (\<lambda>pivot. ?series ! (nat pivot + t)) [500, 100])) [0..<nat 50]
         = map (\<lambda>t. [500 + int t, 100 + int t]) [0..<50]"
    by (rule map_cong) simp_all
  from w a b h1 h2 h3 show ?thesis by simp
qed

text \<open>
  The evaluation grid for a positive future window: its pivots are the numbers
  \<open>past_len + i * future_len\<close> below \<open>datapoints\<close>, consecutive pivots are
  \<open>future_len\<close> apart, and every time-step from \<open>past_len\<close> up to \<open>datapoints\<close>
  lies in the future window of exactly one pivot (no gap, no overlap).  No pivot exceeds
  \<open>datapoints - future_len\<close> when \<open>future_len\<close> divides \<open>datapoints - past_len\<close>;
  otherwise the last pivot does.
\<close>

lemma arange_count:
  assumes "0 < step"
  shows "int i < - ((start - stop) div step) \<longleftrightarrow> start + int i * step < stop"
proof -
  define q where "q = (start - stop) div step"
  define r where "r = (start - stop) mod step"
  have d: "start - stop = q * step + r" by (simp add: q_def r_def)
  have r: "0 \<le> r" "r < step" using assms by (simp_all add: r_def)
  have neg: "(- q) * step = - (q * step)" by simp
  show ?thesis
  proof
    assume "int i < - ((start - stop) div step)"
    then have "int i \<le> - q - 1" by (simp add: q_def)
    then have "int i * step \<le> (- q - 1) * step"
      using assms by (intro mult_right_mono) simp_all
    moreover have "(- q - 1) * step = - (q * step) - step" by (simp add: algebra_simps)
    ultimately have "int i * step \<le> - (q * step) - step" by simp
    with d r show "start + int i * step < stop" by linarith
  next
    assume "start + int i * step < stop"
    with d r have "int i * step < - (q * step)" by linarith
    then have "int i * step < (- q) * step" by (simp only: neg)
    then have "int i < - q" using assms by (simp only: mult_less_cancel_right_pos)
    then show "int i < - ((start - stop) div step)" by (simp add: q_def)
  qed
qed

lemma np_arange_members:
  assumes "0 < step"
  shows "\<exists>ps. np_arange start stop step = Inr ps \<and>
           (\<forall>p. p \<in> set ps \<longleftrightarrow> (\<exists>i::nat. p = start + int i * step \<and> p < stop)) \<and>
           (\<forall>i. Suc i < length ps \<longrightarrow> ps ! Suc i = ps ! i + step)"
proof -
  let ?n = "nat (- ((start - stop) div step))"
  let ?ps = "map (\<lambda>i. start + int i * step) [0..<?n]"
  have a: "np_arange start stop step = Inr ?ps"
    using assms by (simp add: np_arange_def)
  have lt: "i < ?n \<longleftrightarrow> start + int i * step < stop" for i
    using arange_count [OF assms, of i start stop] by linarith
  have m: "p \<in> set ?ps \<longleftrightarrow> (\<exists>i::nat. p = start + int i * step \<and> p < stop)" for p
  proof
    assume "p \<in> set ?ps"
    then obtain i where "i < ?n" "p = start + int i * step" by auto
    with lt show "\<exists>i::nat. p = start + int i * step \<and> p < stop" by blast
  next
    assume "\<exists>i::nat. p = start + int i * step \<and> p < stop"
    then obtain i :: nat where i: "p = start + int i * step" "p < stop" by blast
    with lt have "i < ?n" by simp
    then have "i \<in> set [0..<?n]" by simp
    then have "start + int i * step \<in> (\<lambda>i. start + int i * step) ` set [0..<?n]"
      by (rule imageI)
    with i(1) show "p \<in> set ?ps" by (simp only: set_map)
  qed
  have s: "?ps ! Suc i = ?ps ! i + step" if "Suc i < length ?ps" for i
  proof -
    from that have "Suc i < ?n" "i < ?n" by simp_all
    then show ?thesis by (simp add: algebra_simps)
  qed
  from a m s show ?thesis by blast
qed

lemma np_arange_covers:
  assumes "0 < step" and "np_arange start stop step = Inr ps"
    and "start \<le> t" and "t < stop"
  shows "\<exists>!p. p \<in> set ps \<and> p \<le> t \<and> t < p + step"
proof -
  from np_arange_members [OF assms(1), of start stop] assms(2) have
    m: "\<And>p. p \<in> set ps \<longleftrightarrow> (\<exists>i::nat. p = start + int i * step \<and> p < stop)"
    by simp
  define q where "q = (t - start) div step"
  define r where "r = (t - start) mod step"
  have d: "t - start = q * step + r" by (simp add: q_def r_def)
  have r: "0 \<le> r" "r < step" using assms(1) by (simp_all add: r_def)
  have q: "0 \<le> q" using assms(1,3) by (simp add: q_def pos_imp_zdiv_nonneg_iff)
  define p where "p = start + int (nat q) * step"
  have pq: "p = start + q * step" using q by (simp add: p_def)
  have p1: "p \<le> t" using d r pq by linarith
  have p2: "t < p + step" using d r pq by linarith
  have "p < stop" using p1 assms(4) by linarith
  then have "\<exists>i::nat. p = start + int i * step \<and> p < stop"
    using p_def by blast
  then have p0: "p \<in> set ps" by (simp only: m)
  show ?thesis
  proof (rule ex1I [of _ p])
    show "p \<in> set ps \<and> p \<le> t \<and> t < p + step" using p0 p1 p2 by simp
  next
    fix p' assume h: "p' \<in> set ps \<and> p' \<le> t \<and> t < p' + step"
    then have "\<exists>i::nat. p' = start + int i * step \<and> p' < stop" by (simp only: m)
    then obtain j :: nat where j: "p' = start + int j * step" by blast
    have e1: "(q + 1) * step = q * step + step" and e2: "(int j + 1) * step = int j * step + step"
      by (simp_all add: algebra_simps)
    have "int j * step < (q + 1) * step" using h p1 j pq e1 d r by linarith
    then have a: "int j < q + 1" using assms(1) by (simp only: mult_less_cancel_right_pos)
    have "q * step < (int j + 1) * step" using h j e2 d r by linarith
    then have b: "q < int j + 1" using assms(1) by (simp only: mult_less_cancel_right_pos)
    from a b have "int j = q" by linarith
    with j pq show "p' = p" by simp
  qed
qed

lemma np_arange_aligned:
  assumes "0 < step" and "np_arange start stop step = Inr ps"
    and "step dvd stop - start" and "p \<in> set ps"
  shows "p \<le> stop - step"
proof -
  from np_arange_members [OF assms(1), of start stop] assms(2) have
    m: "\<And>p. p \<in> set ps \<longleftrightarrow> (\<exists>i::nat. p = start + int i * step \<and> p < stop)"
    by simp
  from assms(4) have "\<exists>i::nat. p = start + int i * step \<and> p < stop" by (simp only: m)
  then obtain i :: nat where i: "p = start + int i * step" "p < stop" by blast
  from assms(3) obtain k where "stop - start = step * k" by (auto simp: dvd_def)
  then have k: "stop - start = k * step" by (simp add: mult.commute)
  from i k have "int i * step < k * step" by linarith
  then have "int i < k" using assms(1) by (simp only: mult_less_cancel_right_pos)
  then have "int i + 1 \<le> k" by simp
  then have "(int i + 1) * step \<le> k * step" using assms(1) by (intro mult_right_mono) simp_all
  moreover have "(int i + 1) * step = int i * step + step" by (simp add: algebra_simps)
  ultimately show ?thesis using i k by linarith
qed

lemma np_arange_unaligned:
  assumes "0 < step" and "np_arange start stop step = Inr ps"
    and "start < stop" and "\<not> step dvd stop - start"
  shows "\<exists>p\<in>set ps. stop - step < p"
proof -
  have "start \<le> stop - 1" "stop - 1 < stop" using assms(3) by simp_all
  from np_arange_covers [OF assms(1,2) this] obtain p where
    p: "p \<in> set ps" "p \<le> stop - 1" "stop - 1 < p + step" by blast
  from np_arange_members [OF assms(1), of start stop] assms(2) have
    m: "\<And>p. p \<in> set ps \<longleftrightarrow> (\<exists>i::nat. p = start + int i * step \<and> p < stop)"
    by simp
  from p(1) have "\<exists>i::nat. p = start + int i * step \<and> p < stop" by (simp only: m)
  then obtain i :: nat where i: "p = start + int i * step" by blast
  have "p + step \<noteq> stop"
  proof
    assume "p + step = stop"
    with i have "stop - start = step * (int i + 1)" by (simp add: algebra_simps)
    then have "step dvd stop - start" by (simp only: dvd_triv_left)
    with assms(4) show False by simp
  qed
  with p(3) have "stop - step < p" by linarith
  with p(1) show ?thesis by blast
qed

lemma evaluation_grid_members:
  assumes "0 < future_window a * sample_rate a"
  shows "\<exists>ps. pivots a datapoints = Inr ps \<and>
           (\<forall>p. p \<in> set ps \<longleftrightarrow>
              (\<exists>i::nat. p = past_window a * sample_rate a + int i * (future_window a * sample_rate a)
                 \<and> p < datapoints)) \<and>
           (\<forall>i. Suc i < length ps \<longrightarrow> ps ! Suc i = ps ! i + future_window a * sample_rate a)"
  unfolding pivots_def by (rule np_arange_members [OF assms])

lemma evaluation_grid_covers:
  assumes "0 < future_window a * sample_rate a" and "pivots a datapoints = Inr ps"
    and "past_window a * sample_rate a \<le> t" and "t < datapoints"
  shows "\<exists>!p. p \<in> set ps \<and> p \<le> t \<and> t < p + future_window a * sample_rate a"
  using assms unfolding pivots_def by (rule np_arange_covers)

lemma evaluation_grid_aligned:
  assumes "0 < future_window a * sample_rate a" and "pivots a datapoints = Inr ps"
    and "future_window a * sample_rate a dvd datapoints - past_window a * sample_rate a"
    and "p \<in> set ps"
  shows "p \<le> datapoints - future_window a * sample_rate a"
  using assms unfolding pivots_def by (rule np_arange_aligned)

lemma evaluation_grid_unaligned:
  assumes "0 < future_window a * sample_rate a" and "pivots a datapoints = Inr ps"
    and "past_window a * sample_rate a < datapoints"
    and "\<not> future_window a * sample_rate a dvd datapoints - past_window a * sample_rate a"
  shows "\<exists>p\<in>set ps. datapoints - future_window a * sample_rate a < p"
  using assms unfolding pivots_def by (rule np_arange_unaligned)

text \<open>
  Claim C5, at an input where it fails.  With 1020 time-steps and windows of 50
  samples the grid ends with the pivot 1000, which exceeds \<open>1020 - 50\<close>; the slice at
  that pivot has 20 rows instead of 50, and the concatenation of the future windows
  raises a RuntimeError.
\<close>

theorem evaluation_grid_overruns:
  "pivots \<lparr>train_split = 80, sample_rate = 10, target_rate = 1, past_window = 5,
            future_window = 5, iterations = 1, batch_size = 2\<rparr> 1020
     = Inr [50, 100, 150, 200, 250, 300, 350, 400, 450, 500, 550, 600, 650, 700, 750, 800,
            850, 900, 950, 1000] \<and>
   (1000::int) > 1020 - 5 * 10 \<and>
   py_slice (replicate 1020 [0::real]) 1000 (1000 + 5 * 10) = replicate 20 [0] \<and>
   evaluation_windows \<lparr>train_split = 80, sample_rate = 10, target_rate = 1, past_window = 5,
            future_window = 5, iterations = 1, batch_size = 2\<rparr> (replicate 1020 [0::real])
     = Inl RuntimeError"
proof -
  let ?a = "\<lparr>train_split = 80, sample_rate = 10, target_rate = 1, past_window = 5,
            future_window = 5, iterations = 1, batch_size = 2\<rparr>"
  let ?ps = "[50, 100, 150, 200, 250, 300, 350, 400, 450, 500, 550, 600, 650, 700, 750, 800,
            850, 900, 950, 1000] :: int list"
  let ?data = "replicate 1020 [0::real]"
  have p: "pivots ?a 1020 = Inr ?ps"
    by code_simp
  have s: "py_slice ?data 1000 (1000 + 5 * 10) = replicate 20 [0]"
    by (simp add: py_slice_def slice_bound_def)
  have pw: "past_windows ?data ?ps 50
      = Inr (map (\<lambda>t. concat (map (\<lambda>pivot. ?data ! (nat (pivot - 50) + t)) ?ps)) [0..<nat 50])"
    by (rule past_windows_rows) simp_all
  have "torch_cat_dim1 (map (\<lambda>index. py_slice ?data index (index + 50)) ?ps) = Inl RuntimeError"
  proof (rule torch_cat_dim1_mismatch)
    show "py_slice ?data 50 100 \<in> set (map (\<lambda>index. py_slice ?data index (index + 50)) ?ps)"
      by simp
    show "py_slice ?data 1000 1050 \<in> set (map (\<lambda>index. py_slice ?data index (index + 50)) ?ps)"
      by simp
    show "length (py_slice ?data 50 100) \<noteq> length (py_slice ?data 1000 1050)"
      unfolding length_py_slice by (simp add: slice_bound_def)
  qed
  then have fw: "future_windows ?data ?ps 50 = Inl RuntimeError"
    by (simp add: future_windows_def)
  have "evaluation_windows ?a ?data = Inl RuntimeError"
    by (simp add: evaluation_windows_def p pw fw del: upt_rec_numeral)
  with p s show ?thesis by simp
qed

text \<open>
  The training windows are full whenever the training portion holds at least
  \<open>4 * datapoints div 5 - 1\<close> time-steps, which is the case for the default arguments
  on a dataset of 300 seconds.
\<close>

lemma training_windows_full:
  assumes "random_indices a (int (length data)) indices" and "indices \<noteq> []"
    and "0 \<le> past_window a * sample_rate a" and "0 \<le> future_window a * sample_rate a"
    and "(4 * int (length data)) div 5 \<le> int (length (training_data a data)) + 1"
  shows "training_windows a data indices =
           Inr (map (\<lambda>t. concat (map (\<lambda>pivot. training_data a data
                                    ! (nat (pivot - past_window a * sample_rate a) + t)) indices))
                  [0..<nat (past_window a * sample_rate a)],
                map (\<lambda>t. concat (map (\<lambda>pivot. training_data a data ! (nat pivot + t)) indices))
                  [0..<nat (future_window a * sample_rate a)])"
proof -
  let ?P = "past_window a * sample_rate a" and ?F = "future_window a * sample_rate a"
  let ?L = "int (length (training_data a data))"
  have rng: "?P \<le> p \<and> p < (4 * int (length data)) div 5 - ?F" if "p \<in> set indices" for p
    using assms(1) that by (simp add: random_indices_def randint_returns_def list_all_iff)
  have a: "list_all (\<lambda>pivot. ?P \<le> pivot \<and> pivot \<le> ?L) indices"
    unfolding list_all_iff
  proof
    fix p assume "p \<in> set indices"
    from rng [OF this] assms(4,5) show "?P \<le> p \<and> p \<le> ?L" by linarith
  qed
  have b: "list_all (\<lambda>pivot. 0 \<le> pivot \<and> pivot \<le> ?L - ?F) indices"
    unfolding list_all_iff
  proof
    fix p assume "p \<in> set indices"
    from rng [OF this] assms(3,5) show "0 \<le> p \<and> p \<le> ?L - ?F" by linarith
  qed
  show ?thesis
    by (simp add: training_windows_def past_windows_rows [OF assms(2,3) a]
        future_windows_rows [OF assms(2,4) b])
qed

text \<open>
  Claim C6, at an input where it fails.  With 1000 time-steps and a training split of
  500 samples, the pivot 700 lies in the sampled range \<open>[50, 750)\<close> but beyond the
  training portion: its past window is empty, and the concatenation with the window of
  the pivot 100 raises a RuntimeError.
\<close>

theorem training_pivot_outside_training_data:
  "random_indices \<lparr>train_split = 50, sample_rate = 10, target_rate = 1, past_window = 5,
            future_window = 5, iterations = 1, batch_size = 2\<rparr> 1000 [700, 100] \<and>
   length (training_data \<lparr>train_split = 50, sample_rate = 10, target_rate = 1, past_window = 5,
            future_window = 5, iterations = 1, batch_size = 2\<rparr> (replicate 1000 [0::real])) = 500 \<and>
   py_slice (training_data \<lparr>train_split = 50, sample_rate = 10, target_rate = 1, past_window = 5,
            future_window = 5, iterations = 1, batch_size = 2\<rparr> (replicate 1000 [0::real]))
      (700 - 5 * 10) 700 = [] \<and>
   training_windows \<lparr>train_split = 50, sample_rate = 10, target_rate = 1, past_window = 5,
            future_window = 5, iterations = 1, batch_size = 2\<rparr> (replicate 1000 [0::real])
      [700, 100] = Inl RuntimeError"
proof -
  let ?a = "\<lparr>train_split = 50, sample_rate = 10, target_rate = 1, past_window = 5,
            future_window = 5, iterations = 1, batch_size = 2\<rparr>"
  let ?data = "replicate 1000 [0::real]"
  have r: "random_indices ?a 1000 [700, 100]"
    by (simp add: random_indices_def randint_returns_def)
  have t: "training_data ?a ?data = replicate 500 [0]"
    by (simp add: training_data_def train_samples_cutoff_def py_prefix_def slice_bound_def)
  have s: "py_slice (replicate 500 [0::real]) (700 - 5 * 10) 700 = []"
    by (simp add: py_slice_def slice_bound_def)
  have "torch_cat_dim1 (map (\<lambda>index. py_slice (replicate 500 [0::real]) (index - 50) index) [700, 100])
          = Inl RuntimeError"
  proof (rule torch_cat_dim1_mismatch)
    show "py_slice (replicate 500 [0::real]) 650 700
            \<in> set (map (\<lambda>index. py_slice (replicate 500 [0::real]) (index - 50) index) [700, 100])"
      by simp
    show "py_slice (replicate 500 [0::real]) 50 100
            \<in> set (map (\<lambda>index. py_slice (replicate 500 [0::real]) (index - 50) index) [700, 100])"
      by simp
    show "length (py_slice (replicate 500 [0::real]) 650 700)
            \<noteq> length (py_slice (replicate 500 [0::real]) 50 100)"
      unfolding length_py_slice by (simp add: slice_bound_def)
  qed
  then have "training_windows ?a ?data [700, 100] = Inl RuntimeError"
    by (simp add: training_windows_def t past_windows_def)
  with r t s show ?thesis by simp
qed

subsection \<open>Broadcasting on arrays of equal shape\<close>

lemma shape2_nth: "shape2 n m x \<Longrightarrow> i < n \<Longrightarrow> length (x ! i) = m"
  by (simp add: shape2_def list_all_length)

lemma shape3_nth: "shape3 n m k x \<Longrightarrow> i < n \<Longrightarrow> shape2 m k (x ! i)"
  by (simp add: shape3_def list_all_length)

lemma shape2_I: "length x = n \<Longrightarrow> (\<And>i. i < n \<Longrightarrow> length (x ! i) = m) \<Longrightarrow> shape2 n m x"
  by (simp add: shape2_def list_all_length)

lemma shape3_I: "length x = n \<Longrightarrow> (\<And>i. i < n \<Longrightarrow> shape2 m k (x ! i)) \<Longrightarrow> shape3 n m k x"
  by (simp add: shape3_def list_all_length)

lemma collect_zip:
  assumes "length xs = length ys"
    and "\<forall>(x, y)\<in>set (zip xs ys). f x y = Inr (g x y)"
  shows "collect (map (\<lambda>(x, y). f x y) (zip xs ys)) = Inr (map2 g xs ys)"
  using assms by (induction xs ys rule: list_induct2) auto

lemma broadcast_map2_same_length:
  assumes "length xs = length ys"
    and "\<And>i. i < length xs \<Longrightarrow> f (xs ! i) (ys ! i) = Inr (g (xs ! i) (ys ! i))"
  shows "broadcast_map2 f xs ys = Inr (map2 g xs ys)"
proof -
  have "\<forall>(x, y)\<in>set (zip xs ys). f x y = Inr (g x y)"
    using assms by (auto simp: in_set_zip)
  with assms(1) show ?thesis
    by (simp add: broadcast_map2_def broadcast_zip_def collect_zip)
qed

lemma collect_map_Inr: "collect (map (\<lambda>x. Inr (g x)) xs) = Inr (map g xs)"
  by (induction xs) simp_all

lemma broadcast_map2_singleton:
  "broadcast_map2 (\<lambda>x y. Inr (g x y)) [x] ys = Inr (map (g x) ys)"
proof (cases "length ys = 1")
  case True
  then obtain y where "ys = [y]" by (cases ys) auto
  then show ?thesis by (simp add: broadcast_map2_def broadcast_zip_def)
next
  case False
  then have "broadcast_zip [x] ys = Inr (map (\<lambda>y. (x, y)) ys)"
    by (auto simp: broadcast_zip_def)
  then show ?thesis
    by (simp add: broadcast_map2_def comp_def collect_map_Inr)
qed

lemma error_props_per_channel_shape:
  assumes "shape2 n m e" and "shape3 n m k w"
  shows "error_props_per_channel e w =
           Inr (map2 (map2 (\<lambda>x ws. map (\<lambda>v. x * v) ws)) e w)"
proof -
  have len: "length e = n" "length w = n" using assms by (simp_all add: shape2_def shape3_def)
  have row: "torch_mul2 (map (\<lambda>x. [x]) (e ! i)) (w ! i)
               = Inr (map2 (\<lambda>x ws. map (\<lambda>v. x * v) ws) (e ! i) (w ! i))" if "i < n" for i
  proof -
    have "length (e ! i) = m"
      using assms(1) that by (rule shape2_nth)
    moreover have "shape2 m k (w ! i)"
      using assms(2) that by (rule shape3_nth)
    ultimately have l: "length (e ! i) = m" "length (w ! i) = m"
      by (simp_all add: shape2_def)
    have "broadcast_map2 torch_mul1 (map (\<lambda>x. [x]) (e ! i)) (w ! i)
            = Inr (map2 (\<lambda>c ws. map (\<lambda>v. hd c * v) ws) (map (\<lambda>x. [x]) (e ! i)) (w ! i))"
    proof (rule broadcast_map2_same_length)
      show "length (map (\<lambda>x. [x]) (e ! i)) = length (w ! i)" using l by simp
      fix j assume "j < length (map (\<lambda>x. [x]) (e ! i))"
      then have j: "j < length (e ! i)" by simp
      then show "torch_mul1 (map (\<lambda>x. [x]) (e ! i) ! j) (w ! i ! j)
            = Inr (map (\<lambda>v. hd (map (\<lambda>x. [x]) (e ! i) ! j) * v) (w ! i ! j))"
        by (simp add: torch_mul1_def broadcast_map2_singleton)
    qed
    also have "map2 (\<lambda>c ws. map (\<lambda>v. hd c * v) ws) (map (\<lambda>x. [x]) (e ! i)) (w ! i)
            = map2 (\<lambda>x ws. map (\<lambda>v. x * v) ws) (e ! i) (w ! i)"
      by (simp add: zip_map1 comp_def case_prod_unfold)
    finally show ?thesis by (simp add: torch_mul2_def)
  qed
  have "broadcast_map2 torch_mul2 (unsqueeze2 e) w
          = Inr (map2 (\<lambda>er wm. map2 (\<lambda>x ws. map (\<lambda>v. x * v) ws) (map hd er) wm) (unsqueeze2 e) w)"
  proof (rule broadcast_map2_same_length)
    show "length (unsqueeze2 e) = length w" using len by (simp add: unsqueeze2_def)
    fix i assume "i < length (unsqueeze2 e)"
    then have i: "i < n" using len by (simp add: unsqueeze2_def)
    then have u: "unsqueeze2 e ! i = map (\<lambda>x. [x]) (e ! i)"
      using len by (simp add: unsqueeze2_def)
    show "torch_mul2 (unsqueeze2 e ! i) (w ! i)
            = Inr (map2 (\<lambda>x ws. map (\<lambda>v. x * v) ws) (map hd (unsqueeze2 e ! i)) (w ! i))"
      unfolding u using row [OF i] by (simp add: comp_def)
  qed
  also have "map2 (\<lambda>er wm. map2 (\<lambda>x ws. map (\<lambda>v. x * v) ws) (map hd er) wm) (unsqueeze2 e) w
          = map2 (map2 (\<lambda>x ws. map (\<lambda>v. x * v) ws)) e w"
    by (simp add: unsqueeze2_def zip_map1 comp_def case_prod_unfold)
  finally show ?thesis
    by (simp add: error_props_per_channel_def torch_mul3_def)
qed

lemma error_props_per_channel_cells:
  assumes "shape2 n m e" and "shape3 n m k w"
  shows "\<exists>v. error_props_per_channel e w = Inr v \<and> shape3 n m k v \<and>
           (\<forall>t<n. \<forall>s<m. \<forall>c<k. v ! t ! s ! c = e ! t ! s * w ! t ! s ! c)"
proof -
  let ?v = "map2 (map2 (\<lambda>x ws. map (\<lambda>v. x * v) ws)) e w"
  have le: "length e = n" and lw: "length w = n"
    using assms by (simp_all add: shape2_def shape3_def)
  have re: "length (e ! t) = m" and rw: "length (w ! t) = m" if "t < n" for t
    using shape2_nth [OF assms(1) that] shape3_nth [OF assms(2) that]
    by (simp_all add: shape2_def)
  have cw: "length (w ! t ! s) = k" if "t < n" "s < m" for t s
    using shape2_nth [OF shape3_nth [OF assms(2) that(1)] that(2)] .
  have "shape3 n m k ?v"
  proof (rule shape3_I)
    show "length ?v = n" using le lw by simp
    fix t assume t: "t < n"
    show "shape2 m k (?v ! t)"
      by (rule shape2_I) (simp_all add: t le lw re rw cw)
  qed
  moreover have "?v ! t ! s ! c = e ! t ! s * w ! t ! s ! c" if "t < n" "s < m" "c < k" for t s c
    using that le lw re rw cw by simp
  ultimately show ?thesis
    using error_props_per_channel_shape [OF assms] by blast
qed

subsection \<open>Sum and maximum over axis 0\<close>

lemma foldl_map2_cells:
  assumes "shape2 m k a" and "list_all (shape2 m k) bs"
  shows "shape2 m k (foldl (map2 (map2 f)) a bs) \<and>
         (\<forall>s<m. \<forall>c<k. foldl (map2 (map2 f)) a bs ! s ! c
                          = foldl f (a ! s ! c) (map (\<lambda>b. b ! s ! c) bs))"
  using assms
proof (induction bs arbitrary: a)
  case Nil
  then show ?case by simp
next
  case (Cons b bs)
  let ?a' = "map2 (map2 f) a b"
  from Cons.prems have b: "shape2 m k b" and bs: "list_all (shape2 m k) bs" by simp_all
  have la: "length a = m" and lb: "length b = m"
    using Cons.prems(1) b by (simp_all add: shape2_def)
  have ra: "length (a ! s) = k" and rb: "length (b ! s) = k" if "s < m" for s
    using Cons.prems(1) b that by (simp_all add: shape2_nth)
  have sh: "shape2 m k ?a'"
    by (rule shape2_I) (simp_all add: la lb ra rb)
  have cell: "?a' ! s ! c = f (a ! s ! c) (b ! s ! c)" if "s < m" "c < k" for s c
    using that la lb ra rb by simp
  from Cons.IH [OF sh bs] cell show ?case by simp
qed

lemma foldl_plus_sum_list: "foldl (+) (a::real) xs = a + sum_list xs"
  by (induction xs arbitrary: a) simp_all

lemma foldl_max_Max: "foldl max (a::real) xs = Max (set (a # xs))"
proof (induction xs arbitrary: a)
  case Nil
  show ?case by simp
next
  case (Cons x xs)
  have "foldl max a (x # xs) = Max (set (max a x # xs))"
    using Cons.IH [of "max a x"] by simp
  also have "\<dots> = Max (insert (max a x) (set xs))" by simp
  also have "\<dots> = Max (insert a (insert x (set xs)))"
  proof (cases "set xs = {}")
    case True
    then show ?thesis by (simp add: max.commute)
  next
    case False
    then show ?thesis by (simp add: max.assoc)
  qed
  finally show ?case by simp
qed

lemma column_of_cells:
  assumes "length v = n"
  shows "map (\<lambda>b. b ! s ! c) v = map (\<lambda>t. v ! t ! s ! c) [0..<n]"
  using assms by (intro nth_equalityI) simp_all

lemma sum_list_cells:
  assumes "length v = n"
  shows "sum_list (map (\<lambda>b. b ! s ! c) v) = (\<Sum>t<n. (v ! t ! s ! c :: real))"
proof -
  have "sum_list (map (\<lambda>t. v ! t ! s ! c) [0..<n]) = (\<Sum>t\<in>set [0..<n]. v ! t ! s ! c)"
    by (rule interv_sum_list_conv_sum_set_nat)
  also have "set [0..<n] = {..<n}" by auto
  finally show ?thesis by (simp only: column_of_cells [OF assms])
qed

lemma torch_sum_dim0_cells:
  assumes "shape3 n m k v" and "0 < n"
  shows "shape2 m k (torch_sum_dim0 v)"
    and "s < m \<Longrightarrow> c < k \<Longrightarrow> torch_sum_dim0 v ! s ! c = (\<Sum>t<n. v ! t ! s ! c)"
proof -
  from assms obtain a bs where v: "v = a # bs" by (cases v) (auto simp: shape3_def)
  with assms(1) have a: "shape2 m k a" and bs: "list_all (shape2 m k) bs"
    by (simp_all add: shape3_def)
  note f = foldl_map2_cells [OF a bs, of "(+)"]
  from f show "shape2 m k (torch_sum_dim0 v)" by (simp add: torch_sum_dim0_def v)
  assume "s < m" "c < k"
  with f have "torch_sum_dim0 v ! s ! c = foldl (+) (a ! s ! c) (map (\<lambda>b. b ! s ! c) bs)"
    by (simp add: torch_sum_dim0_def v)
  also have "\<dots> = sum_list (map (\<lambda>b. b ! s ! c) v)"
    by (simp add: foldl_plus_sum_list v)
  also have "\<dots> = (\<Sum>t<n. v ! t ! s ! c)"
    using assms(1) by (intro sum_list_cells) (simp add: shape3_def)
  finally show "torch_sum_dim0 v ! s ! c = (\<Sum>t<n. v ! t ! s ! c)" .
qed

lemma torch_max_dim0_cells:
  assumes "shape3 n m k v" and "0 < n"
  shows "\<exists>r. torch_max_dim0 v = Inr r \<and> shape2 m k r \<and>
           (\<forall>s<m. \<forall>c<k. r ! s ! c = Max ((\<lambda>t. v ! t ! s ! c) ` {..<n}))"
proof -
  from assms obtain a bs where v: "v = a # bs" by (cases v) (auto simp: shape3_def)
  with assms(1) have a: "shape2 m k a" and bs: "list_all (shape2 m k) bs"
    by (simp_all add: shape3_def)
  have len: "length v = n" using assms(1) by (simp add: shape3_def)
  note f = foldl_map2_cells [OF a bs, of max]
  let ?r = "foldl (map2 (map2 max)) a bs"
  have "?r ! s ! c = Max ((\<lambda>t. v ! t ! s ! c) ` {..<n})" if "s < m" "c < k" for s c
  proof -
    from f that have "?r ! s ! c = foldl max (a ! s ! c) (map (\<lambda>b. b ! s ! c) bs)" by simp
    also have "\<dots> = Max (set (map (\<lambda>b. b ! s ! c) v))"
      by (simp add: foldl_max_Max v)
    also have "set (map (\<lambda>b. b ! s ! c) v) = (\<lambda>t. v ! t ! s ! c) ` {..<n}"
      unfolding column_of_cells [OF len] by auto
    finally show ?thesis .
  qed
  with f show ?thesis by (simp add: torch_max_dim0_def v)
qed

lemma torch_div2_cells:
  assumes "shape2 m k x" and "shape2 m k y"
  shows "torch_div2 x y = Inr (map2 (map2 float_div) x y)"
proof -
  have lx: "length x = m" and ly: "length y = m" using assms by (simp_all add: shape2_def)
  show ?thesis
    unfolding torch_div2_def
  proof (rule broadcast_map2_same_length)
    show "length x = length y" using lx ly by simp
    fix i assume "i < length x"
    then have i: "i < m" using lx by simp
    show "broadcast_map2 (\<lambda>x y. Inr (float_div x y)) (x ! i) (y ! i)
            = Inr (map2 float_div (x ! i) (y ! i))"
      by (rule broadcast_map2_same_length)
         (simp_all add: shape2_nth [OF assms(1) i] shape2_nth [OF assms(2) i])
  qed
qed

text \<open>
  What \<^verbatim>\<open>reduce\<close> computes under \<^verbatim>\<open>'mean'\<close>: per cell, the sum of its first
  argument over axis 0 divided by the sum of the matrix over axis 0.
\<close>

lemma reduce_mean_cell:
  assumes "shape3 n m k values" and "shape3 n m k weights" and "0 < n"
    and "s < m" and "c < k"
  shows "\<exists>r. reduce values ''mean'' (Some weights) = Inr r \<and>
           r ! s ! c = float_div (\<Sum>t<n. values ! t ! s ! c) (\<Sum>t<n. weights ! t ! s ! c)"
proof -
  note sv = torch_sum_dim0_cells [OF assms(1,3)]
  note sw = torch_sum_dim0_cells [OF assms(2,3)]
  let ?r = "map2 (map2 float_div) (torch_sum_dim0 values) (torch_sum_dim0 weights)"
  have r: "reduce values ''mean'' (Some weights) = Inr ?r"
    by (simp add: reduce_def torch_div2_cells [OF sv(1) sw(1)])
  have l: "length (torch_sum_dim0 values) = m" "length (torch_sum_dim0 weights) = m"
    "length (torch_sum_dim0 values ! s) = k" "length (torch_sum_dim0 weights ! s) = k"
    using sv(1) sw(1) assms(4) by (simp_all add: shape2_def list_all_length)
  have "?r ! s ! c = float_div (torch_sum_dim0 values ! s ! c) (torch_sum_dim0 weights ! s ! c)"
    using l assms(4,5) by simp
  also have "\<dots> = float_div (\<Sum>t<n. values ! t ! s ! c) (\<Sum>t<n. weights ! t ! s ! c)"
    using sv(2) sw(2) assms(4,5) by simp
  finally show ?thesis using r by blast
qed

text \<open>
  Claim C2 as it is stated, for any error tensor and attribution matrix of equal
  shape, does not hold of \<^verbatim>\<open>reduce\<close>, which does not multiply its first argument
  by the weights: for the values 1 and 2 with the weights 1 and 3 along axis 0 it
  returns 3/4, whereas the weighted average of the values is 7/4.
\<close>

theorem mean_reduction_counterexample:
  "reduce [[[1]], [[2]]] ''mean'' (Some [[[1]], [[3]]]) = Inr [[Some (3 / 4)]] \<and>
   (3 / 4 :: real) \<noteq> (1 * 1 + 2 * 3) / (1 + 3)"
  by (simp add: reduce_def torch_sum_dim0_def torch_div2_def broadcast_map2_def
      broadcast_zip_def float_div_def)

text \<open>
  Claim C2, amended.  On lines 89-90 the tensor handed to \<^verbatim>\<open>reduce\<close> is the
  product of the error values \<open>e\<close> and the attribution matrix \<open>w\<close>.  For every cell
  \<open>(s, c)\<close> whose weights have a positive sum over axis 0, the \<^verbatim>\<open>'mean'\<close> reduction
  returns the sum of that tensor divided by the sum of the weights, which is the
  weighted average of the error values \<open>e\<close> with the attribution matrix as weights;
  when the weights of the cell are all one it is the arithmetic mean over the axis.
\<close>

theorem mean_reduction_weighted_average:
  assumes "shape2 n m e" and "shape3 n m k w" and "s < m" and "c < k"
    and "0 < (\<Sum>t<n. w ! t ! s ! c)"
  shows "\<exists>v r. error_props_per_channel e w = Inr v \<and>
           reduce v ''mean'' (Some w) = Inr r \<and>
           errors_reduced e w ''mean'' = Inr r \<and>
           r ! s ! c = Some ((\<Sum>t<n. v ! t ! s ! c) / (\<Sum>t<n. w ! t ! s ! c)) \<and>
           r ! s ! c = Some ((\<Sum>t<n. e ! t ! s * w ! t ! s ! c) / (\<Sum>t<n. w ! t ! s ! c)) \<and>
           ((\<forall>t<n. w ! t ! s ! c = 1) \<longrightarrow> r ! s ! c = Some ((\<Sum>t<n. e ! t ! s) / real n))"
proof -
  have n: "0 < n"
  proof (rule ccontr)
    assume "\<not> 0 < n"
    then have "n = 0" by simp
    with assms(5) show False by simp
  qed
  from error_props_per_channel_cells [OF assms(1,2)] obtain v where
    v: "error_props_per_channel e w = Inr v" and sv: "shape3 n m k v" and
    cells: "\<forall>t<n. \<forall>s<m. \<forall>c<k. v ! t ! s ! c = e ! t ! s * w ! t ! s ! c"
    by blast
  from reduce_mean_cell [OF sv assms(2) n assms(3,4)] obtain r where
    r: "reduce v ''mean'' (Some w) = Inr r" and
    rc: "r ! s ! c = float_div (\<Sum>t<n. v ! t ! s ! c) (\<Sum>t<n. w ! t ! s ! c)"
    by blast
  have plain: "r ! s ! c = Some ((\<Sum>t<n. v ! t ! s ! c) / (\<Sum>t<n. w ! t ! s ! c))"
    using rc assms(5) by (simp add: float_div_def)
  have sums: "(\<Sum>t<n. v ! t ! s ! c) = (\<Sum>t<n. e ! t ! s * w ! t ! s ! c)"
    using cells assms(3,4) by (intro sum.cong) simp_all
  have avg: "r ! s ! c = Some ((\<Sum>t<n. e ! t ! s * w ! t ! s ! c) / (\<Sum>t<n. w ! t ! s ! c))"
    using plain by (simp only: sums)
  have ones: "r ! s ! c = Some ((\<Sum>t<n. e ! t ! s) / real n)" if "\<forall>t<n. w ! t ! s ! c = 1"
  proof -
    from that have "(\<Sum>t<n. e ! t ! s * w ! t ! s ! c) = (\<Sum>t<n. e ! t ! s)"
      by (intro sum.cong) simp_all
    moreover from that have "(\<Sum>t<n. w ! t ! s ! c) = (\<Sum>t<n. 1)"
      by (intro sum.cong) simp_all
    ultimately show ?thesis using avg by simp
  qed
  have "errors_reduced e w ''mean'' = Inr r"
    by (simp add: errors_reduced_def v r)
  with v r plain avg ones show ?thesis by blast
qed

theorem mean_reduction_weighted_average_witness:
  "shape2 2 1 [[1/10], [3/10 :: real]] \<and> shape3 2 1 2 [[[1, 2]], [[3, 0 :: real]]] \<and>
   (0::real) < (\<Sum>t<2. [[[1, 2]], [[3, 0]]] ! t ! 0 ! 0) \<and>
   (\<exists>r. errors_reduced [[1/10], [3/10]] [[[1, 2]], [[3, 0]]] ''mean'' = Inr r \<and>
        r ! 0 ! 0 = Some (1/4)) \<and>
   shape3 2 1 2 [[[1, 1]], [[1, 1 :: real]]] \<and>
   (\<exists>r. errors_reduced [[1/10], [3/10]] [[[1, 1]], [[1, 1]]] ''mean'' = Inr r \<and>
        r ! 0 ! 1 = Some (1/5))"
proof -
  let ?e = "[[1/10], [3/10 :: real]]"
  let ?w = "[[[1, 2]], [[3, 0 :: real]]]"
  let ?u = "[[[1, 1]], [[1, 1 :: real]]]"
  have two: "{..<2::nat} = {0, 1}" by auto
  have e: "shape2 2 1 ?e" by (simp add: shape2_def)
  have w: "shape3 2 1 2 ?w" by (simp add: shape3_def shape2_def)
  have u: "shape3 2 1 2 ?u" by (simp add: shape3_def shape2_def)
  have i0: "(0::nat) < 1" and i2: "(0::nat) < 2" and i1: "(1::nat) < 2" by simp_all
  have pw: "(0::real) < (\<Sum>t<2. ?w ! t ! 0 ! 0)" by (simp add: two)
  have pu: "(0::real) < (\<Sum>t<2. ?u ! t ! 0 ! 1)" by (simp add: two)
  from mean_reduction_weighted_average [OF e w i0 i2 pw] obtain r where
    r: "errors_reduced ?e ?w ''mean'' = Inr r" and
    rc: "r ! 0 ! 0 = Some ((\<Sum>t<2. ?e ! t ! 0 * ?w ! t ! 0 ! 0) / (\<Sum>t<2. ?w ! t ! 0 ! 0))"
    by blast
  from rc have "r ! 0 ! 0 = Some (1/4)" by (simp add: two)
  with r have a: "\<exists>r. errors_reduced ?e ?w ''mean'' = Inr r \<and> r ! 0 ! 0 = Some (1/4)" by blast
  have ones: "\<forall>t<2. ?u ! t ! 0 ! 1 = 1" by (simp add: less_2_cases_iff)
  from mean_reduction_weighted_average [OF e u i0 i1 pu] obtain r' where
    r': "errors_reduced ?e ?u ''mean'' = Inr r'" and
    i: "(\<forall>t<2. ?u ! t ! 0 ! 1 = 1) \<longrightarrow> r' ! 0 ! 1 = Some ((\<Sum>t<2. ?e ! t ! 0) / real 2)"
    by blast
  from i ones have "r' ! 0 ! 1 = Some ((\<Sum>t<2. ?e ! t ! 0) / real 2)" by blast
  then have "r' ! 0 ! 1 = Some (1/5)" by (simp add: two)
  with r' have b: "\<exists>r. errors_reduced ?e ?u ''mean'' = Inr r \<and> r ! 0 ! 1 = Some (1/5)" by blast
  from e w u pw a b show ?thesis by blast
qed

text \<open>
  Claim C3.  For an error tensor with a non-empty reduction axis, the \<^verbatim>\<open>'max'\<close>
  reduction returns for every cell the maximum of the tensor's values along axis 0.
\<close>

theorem max_reduction_elementwise_maximum:
  assumes "shape3 n m k values" and "0 < n" and "s < m" and "c < k"
  shows "\<exists>r. reduce values ''max'' matrix = Inr r \<and>
           r ! s ! c = Some (Max ((\<lambda>t. values ! t ! s ! c) ` {..<n}))"
proof -
  from torch_max_dim0_cells [OF assms(1,2)] obtain mx where
    mx: "torch_max_dim0 values = Inr mx" and sh: "shape2 m k mx" and
    cells: "\<forall>s<m. \<forall>c<k. mx ! s ! c = Max ((\<lambda>t. values ! t ! s ! c) ` {..<n})"
    by blast
  have "length mx = m" "length (mx ! s) = k"
    using sh assms(3) by (simp_all add: shape2_def list_all_length)
  then have "map (map Some) mx ! s ! c = Some (mx ! s ! c)"
    using assms(3,4) by simp
  with cells assms(3,4) mx show ?thesis
    by (simp add: reduce_def)
qed

theorem max_reduction_elementwise_maximum_witness:
  "shape3 3 1 2 [[[1/5, 1/2]], [[7/10, 1/10]], [[2/5, 3/10 :: real]]] \<and>
   (\<exists>r. reduce [[[1/5, 1/2]], [[7/10, 1/10]], [[2/5, 3/10]]] ''max'' None = Inr r \<and>
        r ! 0 ! 0 = Some (7/10) \<and> r ! 0 ! 1 = Some (1/2))"
proof -
  let ?v = "[[[1/5, 1/2]], [[7/10, 1/10]], [[2/5, 3/10 :: real]]]"
  have three: "{..<3::nat} = {0, 1, 2}" by auto
  have v: "shape3 3 1 2 ?v" by (simp add: shape3_def shape2_def)
  from max_reduction_elementwise_maximum [OF v, of 0 0 None] obtain r where
    r: "reduce ?v ''max'' None = Inr r" and
    a: "r ! 0 ! 0 = Some (Max ((\<lambda>t. ?v ! t ! 0 ! 0) ` {..<3}))"
    by auto
  from max_reduction_elementwise_maximum [OF v, of 0 1 None] r have
    b: "r ! 0 ! 1 = Some (Max ((\<lambda>t. ?v ! t ! 0 ! 1) ` {..<3}))"
    by auto
  from a have "r ! 0 ! 0 = Some (7/10)" by (simp add: three)
  moreover from b have "r ! 0 ! 1 = Some (1/2)" by (simp add: three)
  ultimately show ?thesis using v r by blast
qed

subsection \<open>The training loss\<close>

lemma map2_map_right: "map2 f xs (map g xs) = map (\<lambda>x. f x (g x)) xs"
  by (induction xs) simp_all

lemma map2_map_left: "map2 f (map g xs) xs = map (\<lambda>x. f (g x) x) xs"
  by (induction xs) simp_all

lemma whitelist_cells:
  "map2 (map2 (-)) (torch_ones_like blacklist) blacklist = map (map (\<lambda>b. 1 - b)) blacklist"
  by (simp add: torch_ones_like_def map2_map_left)

lemma torch_mul2_same_shape:
  assumes "shape2 n m x" and "shape2 n m y"
  shows "torch_mul2 x y = Inr (map2 (map2 (*)) x y)"
proof -
  have lx: "length x = n" and ly: "length y = n" using assms by (simp_all add: shape2_def)
  show ?thesis
    unfolding torch_mul2_def
  proof (rule broadcast_map2_same_length)
    show "length x = length y" using lx ly by simp
    fix i assume "i < length x"
    then have i: "i < n" using lx by simp
    show "torch_mul1 (x ! i) (y ! i) = Inr (map2 (*) (x ! i) (y ! i))"
      unfolding torch_mul1_def
      by (rule broadcast_map2_same_length)
         (simp_all add: shape2_nth [OF assms(1) i] shape2_nth [OF assms(2) i])
  qed
qed

lemma outputs_predicted_failure:
  "map2 (map2 (*)) reduced (map (map (\<lambda>b. 1 - b)) blacklist) = predicted_failure reduced blacklist"
  by (simp add: predicted_failure_def zip_map2 comp_def case_prod_unfold)

lemma shape2_concat_length: "shape2 n m x \<Longrightarrow> length (concat x) = n * m"
proof (induction x arbitrary: n)
  case Nil
  then show ?case by (simp add: shape2_def)
next
  case (Cons r x)
  then obtain n' where n: "n = Suc n'" and r: "length r = m" and x: "shape2 n' m x"
    by (cases n) (auto simp: shape2_def)
  from Cons.IH [OF x] r n show ?case by simp
qed

lemma shape2_predicted_failure:
  assumes "shape2 n m reduced" and "shape2 n m score"
  shows "shape2 n m (predicted_failure reduced score)"
proof (rule shape2_I)
  show "length (predicted_failure reduced score) = n"
    using assms by (simp add: predicted_failure_def shape2_def)
  fix i assume i: "i < n"
  then show "length (predicted_failure reduced score ! i) = m"
    using assms shape2_nth [OF assms(1) i] shape2_nth [OF assms(2) i]
    by (simp add: predicted_failure_def shape2_def)
qed

lemma bce_terms_zero_target:
  "concat (map2 (map2 bce_term) out (torch_zeros_like out))
     = map (\<lambda>p. - clamp_log (1 - p)) (concat out)"
proof -
  have "map2 (map2 bce_term) out (torch_zeros_like out)
          = map (map (\<lambda>p. - clamp_log (1 - p))) out"
    by (simp add: torch_zeros_like_def map2_map_right bce_term_def)
  then show ?thesis by (simp add: map_concat)
qed

lemma bce_loss_zero_target:
  assumes "list_all (list_all (\<lambda>x. 0 \<le> x \<and> x \<le> 1)) out" and "concat out \<noteq> []"
  shows "bce_loss out (torch_zeros_like out) = Inr (Some (reliability_loss out))"
proof -
  have "map length out = map length (torch_zeros_like out)"
    by (simp add: torch_zeros_like_def comp_def)
  with assms show ?thesis
    by (auto simp: bce_loss_def torch_mean_def mean_of_cells_def bce_terms_zero_target reliability_loss_def Let_def)
qed

lemma clamp_log_one: "clamp_log 1 = 0"
  by (simp add: clamp_log_def)

text \<open>
  Claim C7.  For a reduced-error matrix and a score matrix of one non-empty shape whose
  predicted failures lie in \<open>[0, 1]\<close> (the domain of the binary cross-entropy), the
  training loss is the binary cross-entropy of \<open>reduced \<times> (1 - score)\<close> against zeros
  plus the penalty weight times the mean score; the weights are 0.05 for the
  \<^verbatim>\<open>'mean'\<close> variant and 0.55, strictly larger, for the \<^verbatim>\<open>'max'\<close> variant; and
  when both matrices are all zeros the loss is 0.
\<close>

theorem training_loss_composition:
  assumes "shape2 n m reduced" and "shape2 n m score" and "0 < n" and "0 < m"
    and "list_all (list_all (\<lambda>p. 0 \<le> p \<and> p \<le> 1)) (predicted_failure reduced score)"
  shows "loss_func reduced score weight = Inr (Some (total_loss reduced score weight)) \<and>
         penalty_weight ''mean'' = Some (5 / 100) \<and> penalty_weight ''max'' = Some (55 / 100) \<and>
         the (penalty_weight ''mean'') < the (penalty_weight ''max'') \<and>
         (reduced = replicate n (replicate m 0) \<and> score = replicate n (replicate m 0)
            \<longrightarrow> loss_func reduced score weight = Inr (Some 0))"
proof -
  let ?pf = "predicted_failure reduced score"
  have wl: "shape2 n m (map (map (\<lambda>b. 1 - b)) score)"
    using assms(2) by (simp add: shape2_def list_all_iff)
  have out: "torch_mul2 reduced (map (map (\<lambda>b. 1 - b)) score) = Inr ?pf"
    by (simp add: torch_mul2_same_shape [OF assms(1) wl] outputs_predicted_failure)
  have lp: "length (concat ?pf) = n * m"
    by (rule shape2_concat_length [OF shape2_predicted_failure [OF assms(1,2)]])
  have ls: "length (concat score) = n * m"
    by (rule shape2_concat_length [OF assms(2)])
  have "0 < length (concat ?pf)" "0 < length (concat score)"
    using lp ls assms(3,4) by simp_all
  then have ne: "concat ?pf \<noteq> []" "concat score \<noteq> []"
    by blast+
  have bce: "bce_loss ?pf (torch_zeros_like ?pf) = Inr (Some (reliability_loss ?pf))"
    by (rule bce_loss_zero_target [OF assms(5) ne(1)])
  have mean: "torch_mean score = Some (exclusion_penalty score)"
    using ne(2) by (simp add: torch_mean_def mean_of_cells_def exclusion_penalty_def Let_def)
  have loss: "loss_func reduced score weight = Inr (Some (total_loss reduced score weight))"
    by (simp add: loss_func_def whitelist_cells out bce mean total_loss_def mult.commute)
  have w: "penalty_weight ''mean'' = Some (5 / 100)" "penalty_weight ''max'' = Some (55 / 100)"
    by (simp_all add: penalty_weight_def models_def)
  have zero: "total_loss reduced score weight = 0"
    if "reduced = replicate n (replicate m 0)" "score = replicate n (replicate m 0)"
  proof -
    have pf: "?pf = replicate n (replicate m 0)"
      unfolding that predicted_failure_def by (simp add: zip_replicate map_replicate_const)
    have c: "concat (replicate n (replicate m (0::real))) = replicate (n * m) 0"
      by (induction n) (simp_all add: replicate_add [symmetric] add.commute)
    have "reliability_loss ?pf = 0"
      unfolding pf by (simp add: reliability_loss_def c clamp_log_one map_replicate_const sum_list_replicate)
    moreover have "exclusion_penalty score = 0"
      unfolding that by (simp add: exclusion_penalty_def c sum_list_replicate)
    ultimately show ?thesis by (simp add: total_loss_def)
  qed
  have lt: "the (penalty_weight ''mean'') < the (penalty_weight ''max'')"
    using w by simp
  have zl: "reduced = replicate n (replicate m 0) \<and> score = replicate n (replicate m 0)
            \<longrightarrow> loss_func reduced score weight = Inr (Some 0)"
  proof (intro impI, elim conjE)
    assume r: "reduced = replicate n (replicate m 0)" and s: "score = replicate n (replicate m 0)"
    have "total_loss reduced score weight = 0" using r s by (rule zero)
    with loss show "loss_func reduced score weight = Inr (Some 0)" by simp
  qed
  from loss w lt zl show ?thesis by blast
qed

theorem training_loss_composition_witness:
  "shape2 1 2 [[1/2, 1/5 :: real]] \<and> shape2 1 2 [[1, 0 :: real]] \<and>
   list_all (list_all (\<lambda>p. 0 \<le> p \<and> p \<le> 1)) (predicted_failure [[1/2, 1/5]] [[1, 0]]) \<and>
   loss_func [[1/2, 1/5]] [[1, 0]] (11/20)
     = Inr (Some ((- clamp_log 1 - clamp_log (4/5)) / 2 + 11/40)) \<and>
   shape2 1 2 [[0, 0 :: real]] \<and>
   loss_func [[0, 0]] [[0, 0]] (11/20) = Inr (Some 0)"
proof -
  have a: "shape2 1 2 [[1/2, 1/5 :: real]]" by (simp add: shape2_def)
  have b: "shape2 1 2 [[1, 0 :: real]]" by (simp add: shape2_def)
  have z: "shape2 1 2 [[0, 0 :: real]]" by (simp add: shape2_def)
  have p: "list_all (list_all (\<lambda>p. 0 \<le> p \<and> p \<le> 1)) (predicted_failure [[1/2, 1/5]] [[1, 0]])"
    by (simp add: predicted_failure_def)
  have pz: "list_all (list_all (\<lambda>p. 0 \<le> p \<and> p \<le> 1)) (predicted_failure [[0, 0]] [[0, 0]])"
    by (simp add: predicted_failure_def)
  have r: "[[0, 0 :: real]] = replicate 1 (replicate 2 0)"
    by (simp add: numeral_2_eq_2)
  have h1: "(0::nat) < 1" and h2: "(0::nat) < 2" by simp_all
  have "loss_func [[1/2, 1/5]] [[1, 0]] (11/20)
          = Inr (Some (total_loss [[1/2, 1/5]] [[1, 0]] (11/20)))"
    using training_loss_composition [OF a b h1 h2 p, of "11/20"] by blast
  then have l1: "loss_func [[1/2, 1/5]] [[1, 0]] (11/20)
          = Inr (Some ((- clamp_log 1 - clamp_log (4/5)) / 2 + 11/40))"
    by (simp add: total_loss_def reliability_loss_def exclusion_penalty_def predicted_failure_def)
  have "[[0, 0 :: real]] = replicate 1 (replicate 2 0) \<and> [[0, 0 :: real]] = replicate 1 (replicate 2 0)
          \<longrightarrow> loss_func [[0, 0]] [[0, 0]] (11/20) = Inr (Some 0)"
    using training_loss_composition [OF z z h1 h2 pz, of "11/20"] by blast
  with r have l2: "loss_func [[0, 0]] [[0, 0]] (11/20) = Inr (Some 0)" by blast
  from a b z p l1 l2 show ?thesis by simp
qed

subsection \<open>The stitched reception series\<close>

lemma length_concat_permute10:
  assumes "shape2 n m x"
  shows "length (concat (permute10 x)) = m * n"
proof (cases x)
  case Nil
  with assms show ?thesis by (simp add: permute10_def shape2_def)
next
  case (Cons row rest)
  with assms have r: "length row = m" and l: "length x = n" by (simp_all add: shape2_def)
  have "permute10 x = map (\<lambda>j. map (\<lambda>r. r ! j) x) [0..<m]"
    using Cons r by (simp add: permute10_def)
  then have "length (concat (permute10 x)) = sum_list (map (\<lambda>j. n) [0..<m])"
    by (simp add: length_concat comp_def l)
  then show ?thesis by (simp add: sum_list_triv)
qed

lemma torch_cat_dim0_columns:
  assumes "list_all (\<lambda>r. length r = 1) x"
  shows "torch_cat_dim0 x (view_column y) = Inr (x @ view_column y)"
proof (cases "x @ view_column y")
  case Nil
  then show ?thesis by (simp add: torch_cat_dim0_def)
next
  case (Cons row rest)
  have all: "list_all (\<lambda>r. length r = 1) (x @ view_column y)"
    using assms by (auto simp: view_column_def list_all_iff)
  with Cons have "length row = 1" "list_all (\<lambda>r. length r = 1) rest" by simp_all
  then have "list_all (\<lambda>r. length r = length row) rest" by simp
  with Cons show ?thesis by (simp add: torch_cat_dim0_def)
qed

text \<open>
  Claim C8.  When the baseline series is a column with at least \<open>past_len\<close> rows and
  the masked simulation returns one column per evaluation pivot with \<open>future_len\<close>
  rows, the stitched reception series is computed, its length is
  \<open>past_len + (number of pivots) \<times> future_len\<close>, its first \<open>past_len\<close> samples are
  those of the baseline reception series, and the rest comes from the masked output.
\<close>

theorem reception_series_stitching:
  assumes "pivots a datapoints = Inr ps"
    and "0 \<le> past_window a * sample_rate a"
    and "past_window a * sample_rate a \<le> int (length tsch_errors)"
    and "list_all (\<lambda>r. length r = 1) tsch_errors"
    and "shape2 (nat (future_window a * sample_rate a)) (length ps) error_props_values"
  shows "\<exists>r. reception_props_values prob a tsch_errors error_props_values = Inr r \<and>
           length r = nat (past_window a * sample_rate a)
                        + length ps * nat (future_window a * sample_rate a) \<and>
           take (nat (past_window a * sample_rate a)) r
             = take (nat (past_window a * sample_rate a)) (tsch_receptions prob tsch_errors) \<and>
           drop (nat (past_window a * sample_rate a)) r
             = reception_props prob (view_column (permute10 error_props_values))"
proof -
  let ?P = "past_window a * sample_rate a"
  let ?pre = "py_prefix tsch_errors ?P"
  let ?col = "view_column (permute10 error_props_values)"
  have pre: "?pre = take (nat ?P) tsch_errors"
    using assms(2,3) by (simp add: py_prefix_def slice_bound_def)
  have lpre: "length ?pre = nat ?P"
    using assms(2,3) by (simp add: pre)
  have "list_all (\<lambda>r. length r = 1) ?pre"
    using assms(4) by (auto simp: pre list_all_iff dest: in_set_takeD)
  then have cat: "torch_cat_dim0 ?pre ?col = Inr (?pre @ ?col)"
    by (rule torch_cat_dim0_columns)
  let ?r = "reception_props prob (?pre @ ?col)"
  have r: "reception_props_values prob a tsch_errors error_props_values = Inr ?r"
    by (simp add: reception_props_values_def cat)
  have lcol: "length ?col = length ps * nat (future_window a * sample_rate a)"
    using length_concat_permute10 [OF assms(5)] by (simp add: view_column_def)
  have len: "length ?r = nat ?P + length ps * nat (future_window a * sample_rate a)"
    by (simp add: reception_props_def lpre lcol)
  have nP: "nat ?P \<le> length tsch_errors"
    using assms(2,3) by linarith
  have tk: "take (nat ?P) ?r = take (nat ?P) (tsch_receptions prob tsch_errors)"
    using nP by (simp add: reception_props_def tsch_receptions_def pre take_map)
  have dr: "drop (nat ?P) ?r = reception_props prob ?col"
    using nP by (simp add: reception_props_def pre)
  from r len tk dr show ?thesis by blast
qed

theorem reception_series_stitching_witness:
  "pivots \<lparr>train_split = 6, sample_rate = 1, target_rate = 1, past_window = 2,
            future_window = 2, iterations = 1, batch_size = 1\<rparr> 8 = Inr [2, 4, 6] \<and>
   list_all (\<lambda>r. length r = 1)
     [[1/10], [2/10], [3/10], [4/10], [5/10], [6/10], [7/10], [8/10 :: real]] \<and>
   shape2 2 3 [[0, 1/2, 1/4], [1, 1/2, 3/4 :: real]] \<and>
   reception_props_values (\<lambda>x. 1 - x)
     \<lparr>train_split = 6, sample_rate = 1, target_rate = 1, past_window = 2,
      future_window = 2, iterations = 1, batch_size = 1\<rparr>
     [[1/10], [2/10], [3/10], [4/10], [5/10], [6/10], [7/10], [8/10]]
     [[0, 1/2, 1/4], [1, 1/2, 3/4]]
     = Inr [[9/10], [8/10], [1], [0], [1/2], [1/2], [3/4], [1/4]]"
proof -
  let ?a = "\<lparr>train_split = 6, sample_rate = 1, target_rate = 1, past_window = 2,
            future_window = 2, iterations = 1, batch_size = 1\<rparr>"
  let ?t = "[[1/10], [2/10], [3/10], [4/10], [5/10], [6/10], [7/10], [8/10 :: real]]"
  let ?e = "[[0, 1/2, 1/4], [1, 1/2, 3/4 :: real]]"
  have p: "pivots ?a 8 = Inr [2, 4, 6]" by code_simp
  have h2: "0 \<le> past_window ?a * sample_rate ?a" by simp
  have h3: "past_window ?a * sample_rate ?a \<le> int (length ?t)" by simp
  have h4: "list_all (\<lambda>r. length r = 1) ?t" by simp
  have e: "shape2 2 3 ?e" by (simp add: shape2_def)
  have h5: "shape2 (nat (future_window ?a * sample_rate ?a)) (length [2, 4, 6 :: int]) ?e"
    by (simp add: shape2_def)
  from reception_series_stitching [OF p h2 h3 h4 h5, of "\<lambda>x. 1 - x"] obtain r where
    r: "reception_props_values (\<lambda>x. 1 - x) ?a ?t ?e = Inr r" and
    len: "length r = nat (past_window ?a * sample_rate ?a)
                       + length [2, 4, 6 :: int] * nat (future_window ?a * sample_rate ?a)" and
    tk: "take (nat (past_window ?a * sample_rate ?a)) r
           = take (nat (past_window ?a * sample_rate ?a)) (tsch_receptions (\<lambda>x. 1 - x) ?t)" and
    dr: "drop (nat (past_window ?a * sample_rate ?a)) r
           = reception_props (\<lambda>x. 1 - x) (view_column (permute10 ?e))"
    by blast
  have "r = take 2 r @ drop 2 r" by simp
  also have "take 2 r = [[9/10], [8/10]]"
    using tk by (simp add: tsch_receptions_def reception_props_def)
  also have "drop 2 r = [[1], [0], [1/2], [1/2], [3/4], [1/4]]"
    using dr by (simp add: reception_props_def view_column_def permute10_def upt_rec)
  finally have "r = [[9/10], [8/10], [1], [0], [1/2], [1/2], [3/4], [1/4]]" by simp
  with r p h4 e show ?thesis by simp
qed

subsection \<open>The normalization statistics\<close>

lemma train_iteration_statistics:
  assumes "train_iteration interpolate optimize a data s indices = Inr s'"
  shows "data_mean s' = data_mean s \<and> data_std s' = data_std s"
  using assms by (auto simp: train_iteration_def split: sum.splits prod.splits)

lemma train_statistics:
  assumes "train interpolate optimize a data s draws = Inr s'"
  shows "data_mean s' = data_mean s \<and> data_std s' = data_std s"
  using assms
proof (induction draws arbitrary: s)
  case Nil
  then show ?case by simp
next
  case (Cons indices draws)
  from Cons.prems obtain s1 where
    one: "train_iteration interpolate optimize a data s indices = Inr s1" and
    rest: "train interpolate optimize a data s1 draws = Inr s'"
    by (auto split: sum.splits)
  from Cons.IH [OF rest] train_iteration_statistics [OF one] show ?case by simp
qed

lemma past_windows_normalized_statistics:
  assumes "data_mean s = data_mean s0" and "data_std s = data_std s0"
  shows "past_windows_normalized s x = past_windows_normalized s0 x"
  using assms by (simp add: past_windows_normalized_def)

text \<open>
  Claim C9.  After any number of training iterations the two statistics are still the
  mean and the standard deviation of the whole training portion, as computed before
  the loop; a further training iteration and the evaluation both standardize their
  past windows with exactly these two values, entry by entry as \<open>(x - mean) / std\<close>,
  whatever the batch.
\<close>

theorem normalization_statistics_fixed:
  assumes "train interpolate optimize a data (initial_trainer a data net) draws = Inr s"
  shows "data_mean s = mean_of_cells (concat (concat (training_data a data))) \<and>
         data_std s = std_of_cells (concat (concat (training_data a data))) \<and>
         (\<forall>indices s'. train_iteration interpolate optimize a data s indices = Inr s' \<longrightarrow>
            (\<exists>pw fw. training_windows a data indices = Inr (pw, fw) \<and>
               network s' = optimize (network s)
                 (past_windows_normalized (initial_trainer a data net) (interpolate pw)) fw \<and>
               data_mean s' = data_mean s \<and> data_std s' = data_std s)) \<and>
         (\<forall>x. evaluation_input interpolate a data s = Inr x \<longrightarrow>
            (\<exists>pw fw. evaluation_windows a data = Inr (pw, fw) \<and>
               x = past_windows_normalized (initial_trainer a data net) (interpolate pw))) \<and>
         (\<forall>m sd x. data_mean s = Some m \<and> data_std s = Some sd \<and> sd \<noteq> 0 \<longrightarrow>
            normalize_cell (data_mean s) (data_std s) x = Some ((x - m) / sd))"
proof -
  let ?s0 = "initial_trainer a data net :: 'a trainer"
  from train_statistics [OF assms] have
    inv: "data_mean s = data_mean ?s0" "data_std s = data_std ?s0" by simp_all
  note nrm = past_windows_normalized_statistics [OF inv]
  have m: "data_mean s = mean_of_cells (concat (concat (training_data a data)))"
    and sd: "data_std s = std_of_cells (concat (concat (training_data a data)))"
    using inv by (simp_all add: initial_trainer_def Let_def)
  have it: "\<exists>pw fw. training_windows a data indices = Inr (pw, fw) \<and>
               network s' = optimize (network s) (past_windows_normalized ?s0 (interpolate pw)) fw \<and>
               data_mean s' = data_mean s \<and> data_std s' = data_std s"
    if "train_iteration interpolate optimize a data s indices = Inr s'" for indices s'
    using that nrm by (auto simp: train_iteration_def split: sum.splits prod.splits)
  have ev: "\<exists>pw fw. evaluation_windows a data = Inr (pw, fw) \<and>
               x = past_windows_normalized ?s0 (interpolate pw)"
    if "evaluation_input interpolate a data s = Inr x" for x
    using that nrm by (auto simp: evaluation_input_def split: sum.splits prod.splits)
  have cell: "normalize_cell (data_mean s) (data_std s) x = Some ((x - m') / sd')"
    if "data_mean s = Some m'" "data_std s = Some sd'" "sd' \<noteq> 0" for m' sd' x
    using that by (simp add: normalize_cell_def float_div_def)
  from m sd it ev cell show ?thesis by blast
qed

theorem normalization_statistics_fixed_witness:
  "train (\<lambda>x. x) (\<lambda>net x fw. Suc net)
     \<lparr>train_split = 3, sample_rate = 1, target_rate = 1, past_window = 1, future_window = 1,
      iterations = 1, batch_size = 1\<rparr>
     [[[1]], [[3]], [[5]], [[7]]]
     (initial_trainer
        \<lparr>train_split = 3, sample_rate = 1, target_rate = 1, past_window = 1, future_window = 1,
         iterations = 1, batch_size = 1\<rparr> [[[1]], [[3]], [[5]], [[7]]] 0) [[1]]
     = Inr \<lparr>data_mean = Some 3, data_std = Some 2, network = Suc 0\<rparr> \<and>
   mean_of_cells (concat (concat (training_data
        \<lparr>train_split = 3, sample_rate = 1, target_rate = 1, past_window = 1, future_window = 1,
         iterations = 1, batch_size = 1\<rparr> [[[1]], [[3]], [[5]], [[7 :: real]]]))) = Some 3 \<and>
   std_of_cells (concat (concat (training_data
        \<lparr>train_split = 3, sample_rate = 1, target_rate = 1, past_window = 1, future_window = 1,
         iterations = 1, batch_size = 1\<rparr> [[[1]], [[3]], [[5]], [[7 :: real]]]))) = Some 2 \<and>
   evaluation_input (\<lambda>x. x)
     \<lparr>train_split = 3, sample_rate = 1, target_rate = 1, past_window = 1, future_window = 1,
      iterations = 1, batch_size = 1\<rparr>
     [[[1]], [[3]], [[5]], [[7]]]
     \<lparr>data_mean = Some 3, data_std = Some 2, network = Suc 0\<rparr>
     = Inr [[[Some (- 1)], [Some 0], [Some 1]]]"
proof -
  let ?a = "\<lparr>train_split = 3, sample_rate = 1, target_rate = 1, past_window = 1,
             future_window = 1, iterations = 1, batch_size = 1\<rparr>"
  let ?data = "[[[1]], [[3]], [[5]], [[7 :: real]]]"
  let ?s = "\<lparr>data_mean = Some 3, data_std = Some 2, network = Suc 0\<rparr>"
  have td: "training_data ?a ?data = [[[1]], [[3]], [[5]]]"
    by (simp add: training_data_def train_samples_cutoff_def py_prefix_def slice_bound_def)
  have s0: "initial_trainer ?a ?data (0::nat) = \<lparr>data_mean = Some 3, data_std = Some 2, network = 0\<rparr>"
    by (simp add: initial_trainer_def td mean_of_cells_def std_of_cells_def power2_eq_square)
  have tw: "training_windows ?a ?data [1] = Inr ([[[1]]], [[[3]]])"
    by (simp add: training_windows_def td past_windows_def future_windows_def torch_cat_dim1_def
        py_slice_def slice_bound_def)
  have run: "train (\<lambda>x. x) (\<lambda>net x fw. Suc net) ?a ?data (initial_trainer ?a ?data 0) [[1]] = Inr ?s"
    by (simp add: s0 train_iteration_def tw)
  have ew: "evaluation_windows ?a ?data = Inr ([[[1], [3], [5]]], [[[3], [5], [7]]])"
    by (simp add: evaluation_windows_def pivots_def np_arange_def past_windows_def
        future_windows_def torch_cat_dim1_def py_slice_def slice_bound_def upt_rec)
  have ei: "evaluation_input (\<lambda>x. x) ?a ?data ?s = Inr [[[Some (- 1)], [Some 0], [Some 1]]]"
    by (simp add: evaluation_input_def ew past_windows_normalized_def normalize_cell_def
        float_div_def)
  from normalization_statistics_fixed [OF run] have
    "data_mean ?s = mean_of_cells (concat (concat (training_data ?a ?data)))"
    "data_std ?s = std_of_cells (concat (concat (training_data ?a ?data)))"
    by blast+
  then have "mean_of_cells (concat (concat (training_data ?a ?data))) = Some 3"
    "std_of_cells (concat (concat (training_data ?a ?data))) = Some 2"
    by simp_all
  with run ei show ?thesis by blast
qed

end
